theory Spec2Isabelle
  imports Complex_Main "HOL-Library.Log_Nat"
begin

section \<open>Values: Python floats\<close>

text \<open>
  The functions of \<^verbatim>\<open>cirq/linalg/tolerance.py\<close> compute on Python floats (and on numpy
  arrays of them), which are IEEE 754 doubles. A float is modelled as one of the special
  values (not-a-number, the two infinities) or a finite value, which is a real number. Every
  arithmetic operation computes the exact real result and rounds it to the nearest double,
  ties to the even mantissa, and to an infinity when the rounded result leaves the range of
  the format. A finite value \<open>Fin x\<close> is a float of the program when \<open>x\<close> is a double
  (\<open>is_float\<close> below); the operations return such values. The sign of zero and the payload
  of a NaN are outside this model.
\<close>

datatype float64 = NaN | PInf | NInf | Fin real

datatype error = ZeroDivisionError | ValueError

subsection \<open>Rounding to the nearest double\<close>

text \<open>The integer nearest to \<open>q\<close>; halfway between two integers, the even one.\<close>

definition round_half_even :: "real \<Rightarrow> int" where
  "round_half_even q =
     (let f = \<lfloor>q\<rfloor>; d = q - of_int f in
      if d < 1 / 2 then f else if 1 / 2 < d then f + 1 else if even f then f else f + 1)"

text \<open>
  Every finite double is a whole number of units of \<open>2\<^sup>-\<^sup>1\<^sup>0\<^sup>7\<^sup>4\<close>, the smallest
  positive double; \<open>scale\<close> is the number of units in 1.
\<close>

definition scale :: real where
  "scale = 2 ^ 1074"

text \<open>
  A double has a mantissa of 53 bits. Of the bits of \<open>|x|\<close>, counted in units (\<open>floorlog 2\<close>
  is the length in bits), the ones below the first 53 are rounded away: \<open>ulp_shift x\<close> is
  their number, and \<open>ulp x\<close> the distance between the doubles around \<open>x\<close>. Where \<open>|x|\<close> has
  at most 53 bits (the subnormal numbers and the smallest normal ones) the distance is one
  unit.
\<close>

definition ulp_shift :: "real \<Rightarrow> nat" where
  "ulp_shift x = floorlog 2 (nat \<lfloor>\<bar>x\<bar> * scale\<rfloor>) - 53"

definition ulp :: "real \<Rightarrow> real" where
  "ulp x = 2 ^ ulp_shift x / scale"

text \<open>The double nearest to \<open>x\<close>, were the exponent unbounded above.\<close>

definition rnd :: "real \<Rightarrow> real" where
  "rnd x = of_int (round_half_even (x / ulp x)) * ulp x"

text \<open>The largest double is \<open>(2\<^sup>5\<^sup>3 - 1) * 2\<^sup>9\<^sup>7\<^sup>1\<close>; a result that rounds to \<open>2\<^sup>1\<^sup>0\<^sup>2\<^sup>4\<close> or
  beyond overflows.\<close>

definition huge :: real where
  "huge = 2 ^ 1024"

text \<open>
  The float that an exact result \<open>x\<close> becomes. This is also how a decimal literal of the
  source is read: \<^verbatim>\<open>1e-5\<close> is \<open>round64 (1 / 10 ^ 5)\<close>.
\<close>

definition round64 :: "real \<Rightarrow> float64" where
  "round64 x =
     (let y = rnd x in
      if huge \<le> y then PInf else if y \<le> - huge then NInf else Fin y)"

text \<open>The reals that are doubles, and the values that are floats.\<close>

definition is_double :: "real \<Rightarrow> bool" where
  "is_double x = (rnd x = x \<and> \<bar>x\<bar> < huge)"

fun is_float :: "float64 \<Rightarrow> bool" where
  "is_float (Fin x) = is_double x"
| "is_float _ = True"

subsection \<open>The operations\<close>

fun isnan :: "float64 \<Rightarrow> bool" where
  "isnan NaN = True"
| "isnan _ = False"

fun isfinite :: "float64 \<Rightarrow> bool" where
  "isfinite (Fin _) = True"
| "isfinite _ = False"

text \<open>Strictly positive (the sign used by a product with an infinity).\<close>

fun fpos :: "float64 \<Rightarrow> bool" where
  "fpos PInf = True"
| "fpos (Fin x) = (0 < x)"
| "fpos _ = False"

text \<open>\<^verbatim>\<open>x < 0\<close>\<close>

fun fltz :: "float64 \<Rightarrow> bool" where
  "fltz NInf = True"
| "fltz (Fin x) = (x < 0)"
| "fltz _ = False"

fun fneg :: "float64 \<Rightarrow> float64" where
  "fneg NaN = NaN"
| "fneg PInf = NInf"
| "fneg NInf = PInf"
| "fneg (Fin x) = Fin (- x)"

text \<open>\<^verbatim>\<open>abs(x)\<close>\<close>

fun fabs :: "float64 \<Rightarrow> float64" where
  "fabs NaN = NaN"
| "fabs PInf = PInf"
| "fabs NInf = PInf"
| "fabs (Fin x) = Fin \<bar>x\<bar>"

text \<open>\<^verbatim>\<open>x + y\<close>: opposite infinities add to NaN; a finite sum is rounded.\<close>

fun fadd :: "float64 \<Rightarrow> float64 \<Rightarrow> float64" where
  "fadd NaN _ = NaN"
| "fadd _ NaN = NaN"
| "fadd PInf NInf = NaN"
| "fadd NInf PInf = NaN"
| "fadd PInf _ = PInf"
| "fadd _ PInf = PInf"
| "fadd NInf _ = NInf"
| "fadd _ NInf = NInf"
| "fadd (Fin x) (Fin y) = round64 (x + y)"

text \<open>\<^verbatim>\<open>x - y\<close>\<close>

definition fsub :: "float64 \<Rightarrow> float64 \<Rightarrow> float64" where
  "fsub x y = fadd x (fneg y)"

text \<open>\<^verbatim>\<open>x * y\<close>: an infinity times zero is NaN; a finite product is rounded.\<close>

fun fmul :: "float64 \<Rightarrow> float64 \<Rightarrow> float64" where
  "fmul NaN _ = NaN"
| "fmul _ NaN = NaN"
| "fmul (Fin x) (Fin y) = round64 (x * y)"
| "fmul x y =
     (if x = Fin 0 \<or> y = Fin 0 then NaN
      else if fpos x = fpos y then PInf else NInf)"

text \<open>\<^verbatim>\<open>x / 2\<close>, the only division of the module.\<close>

fun div2 :: "float64 \<Rightarrow> float64" where
  "div2 (Fin x) = round64 (x / 2)"
| "div2 x = x"

text \<open>\<^verbatim>\<open>x <= y\<close>: false as soon as one side is NaN.\<close>

fun fle :: "float64 \<Rightarrow> float64 \<Rightarrow> bool" where
  "fle NaN _ = False"
| "fle _ NaN = False"
| "fle NInf _ = True"
| "fle _ PInf = True"
| "fle PInf _ = False"
| "fle _ NInf = False"
| "fle (Fin x) (Fin y) = (x \<le> y)"

text \<open>\<^verbatim>\<open>x == y\<close>: NaN is equal to nothing, itself included.\<close>

definition feq :: "float64 \<Rightarrow> float64 \<Rightarrow> bool" where
  "feq x y = (\<not> isnan x \<and> x = y)"

text \<open>
  The remainder. C's \<^verbatim>\<open>fmod(x, y)\<close> is exact: \<open>x - y * n\<close> for \<open>n\<close> the quotient
  \<open>x / y\<close> with its fraction cut off, so it has the sign of \<open>x\<close>.
\<close>

definition c_trunc :: "real \<Rightarrow> int" where
  "c_trunc q = (if 0 \<le> q then \<lfloor>q\<rfloor> else \<lceil>q\<rceil>)"

fun c_fmod :: "float64 \<Rightarrow> float64 \<Rightarrow> float64" where
  "c_fmod NaN _ = NaN"
| "c_fmod _ NaN = NaN"
| "c_fmod PInf _ = NaN"
| "c_fmod NInf _ = NaN"
| "c_fmod (Fin x) PInf = Fin x"
| "c_fmod (Fin x) NInf = Fin x"
| "c_fmod (Fin x) (Fin y) = (if y = 0 then NaN else Fin (x - y * of_int (c_trunc (x / y))))"

text \<open>
  Python's and numpy's \<^verbatim>\<open>%\<close> on a non-zero divisor, as their C code computes it:
  \<^verbatim>\<open>mod = fmod(vx, wx); if (mod) { if ((wx < 0) != (mod < 0)) mod += wx; }\<close>
  \<^verbatim>\<open>else mod = copysign(0.0, wx);\<close>
  The addition of the divisor is a float addition: it rounds.
\<close>

definition float_rem :: "float64 \<Rightarrow> float64 \<Rightarrow> float64" where
  "float_rem vx wx =
     (let md = c_fmod vx wx in
      if md \<noteq> Fin 0 then (if fltz wx \<noteq> fltz md then fadd md wx else md)
      else Fin 0)"

text \<open>Python's \<^verbatim>\<open>x % y\<close> on floats raises when the divisor is zero.\<close>

definition py_mod :: "float64 \<Rightarrow> float64 \<Rightarrow> error + float64" where
  "py_mod x y = (if y = Fin 0 then Inl ZeroDivisionError else Inr (float_rem x y))"

text \<open>numpy's \<^verbatim>\<open>x % y\<close> gives what \<^verbatim>\<open>fmod\<close> gives, NaN (and a warning), when the
  divisor is zero.\<close>

definition np_mod :: "float64 \<Rightarrow> float64 \<Rightarrow> float64" where
  "np_mod x y = (if y = Fin 0 then c_fmod x y else float_rem x y)"

section \<open>The scalar functions\<close>

definition DEFAULT_RTOL :: float64 where
  "DEFAULT_RTOL = round64 (1 / 10 ^ 5)"

definition DEFAULT_ATOL :: float64 where
  "DEFAULT_ATOL = round64 (1 / 10 ^ 8)"

definition DEFAULT_EQUAL_NAN :: bool where
  "DEFAULT_EQUAL_NAN = False"

text \<open>\<^verbatim>\<open>return abs(a - b) <= atol + rtol * abs(b)\<close>\<close>

definition close :: "float64 \<Rightarrow> float64 \<Rightarrow> float64 \<Rightarrow> float64 \<Rightarrow> bool" where
  "close a b rtol atol = fle (fabs (fsub a b)) (fadd atol (fmul rtol (fabs b)))"

text \<open>\<^verbatim>\<open>return abs(a) <= atol\<close>\<close>

definition near_zero :: "float64 \<Rightarrow> float64 \<Rightarrow> bool" where
  "near_zero a atol = fle (fabs a) atol"

text \<open>
  \<^verbatim>\<open>half_period = period / 2\<close>,
  \<^verbatim>\<open>return near_zero((a + half_period) % period - half_period, atol)\<close>
\<close>

definition near_zero_mod :: "float64 \<Rightarrow> float64 \<Rightarrow> float64 \<Rightarrow> error + bool" where
  "near_zero_mod a period atol =
     (let half_period = div2 period in
      case py_mod (fadd a half_period) period of
        Inl e \<Rightarrow> Inl e
      | Inr m \<Rightarrow> Inr (near_zero (fsub m half_period) atol))"

section \<open>numpy arrays\<close>

text \<open>
  An array is its shape and its elements in row-major order, as numpy stores it; a scalar is
  the array of shape \<open>[]\<close>. What numpy does is modelled from its documentation:
  \<^verbatim>\<open>np.shape\<close>, \<^verbatim>\<open>np.zeros\<close>, the elementwise operators with a scalar,
  broadcasting, and \<^verbatim>\<open>np.allclose\<close>.
\<close>

record ndarray =
  shape :: "nat list"
  data :: "float64 list"

text \<open>The arrays numpy can build: as many elements as the shape says.\<close>

definition well_formed :: "ndarray \<Rightarrow> bool" where
  "well_formed a = (length (data a) = prod_list (shape a))"

definition np_shape :: "ndarray \<Rightarrow> nat list" where
  "np_shape a = shape a"

definition np_zeros :: "nat list \<Rightarrow> ndarray" where
  "np_zeros s = \<lparr>shape = s, data = replicate (prod_list s) (Fin 0)\<rparr>"

text \<open>An operator applied to every element (the other operand is a scalar).\<close>

definition np_map :: "(float64 \<Rightarrow> float64) \<Rightarrow> ndarray \<Rightarrow> ndarray" where
  "np_map f a = \<lparr>shape = shape a, data = map f (data a)\<rparr>"

text \<open>
  Broadcasting of two shapes, from the last dimension backwards: two dimensions agree when
  they are equal or one of them is 1; a missing dimension counts as 1.
\<close>

fun broadcast_rev :: "nat list \<Rightarrow> nat list \<Rightarrow> nat list option" where
  "broadcast_rev [] ys = Some ys"
| "broadcast_rev xs [] = Some xs"
| "broadcast_rev (x # xs) (y # ys) =
     (if x = y \<or> y = 1 then map_option ((#) x) (broadcast_rev xs ys)
      else if x = 1 then map_option ((#) y) (broadcast_rev xs ys)
      else None)"

definition broadcast_shapes :: "nat list \<Rightarrow> nat list \<Rightarrow> nat list option" where
  "broadcast_shapes s1 s2 = map_option rev (broadcast_rev (rev s1) (rev s2))"

text \<open>All the positions of an array of a given shape, in row-major order.\<close>

fun indices :: "nat list \<Rightarrow> nat list list" where
  "indices [] = [[]]"
| "indices (n # ns) = concat (map (\<lambda>i. map ((#) i) (indices ns)) [0..<n])"

text \<open>
  The place of a position in the row-major data; a dimension of size 1 is read at 0
  whatever the position says (this is how a broadcast dimension repeats its element).
\<close>

fun offset :: "nat list \<Rightarrow> nat list \<Rightarrow> nat" where
  "offset (d # ds) (i # is) = (if d = 1 then 0 else i) * prod_list ds + offset ds is"
| "offset _ _ = 0"

text \<open>
  The element of \<open>a\<close> at a position of the broadcast shape: the leading dimensions that
  \<open>a\<close> does not have are dropped.
\<close>

definition item :: "ndarray \<Rightarrow> nat list \<Rightarrow> float64" where
  "item a idx = data a ! offset (shape a) (drop (length idx - length (shape a)) idx)"

text \<open>The pairs of corresponding elements of two arrays, or nothing when the shapes do not
  broadcast.\<close>

definition broadcast_pairs :: "ndarray \<Rightarrow> ndarray \<Rightarrow> (float64 \<times> float64) list option" where
  "broadcast_pairs a b =
     (case broadcast_shapes (shape a) (shape b) of
        None \<Rightarrow> None
      | Some s \<Rightarrow> Some (map (\<lambda>idx. (item a idx, item b idx)) (indices s)))"

text \<open>
  \<^verbatim>\<open>np.isclose\<close> at one position, as the numpy 1.x releases of the source's time
  compute it: numpy applies \<^verbatim>\<open>abs(x - y) <= atol + rtol * abs(y)\<close>, in double
  arithmetic, where both elements are finite, compares with \<^verbatim>\<open>==\<close> where one is not,
  and with \<^verbatim>\<open>equal_nan\<close> takes two NaNs as close. (numpy 2.x computes
  \<^verbatim>\<open>within_tol & isfinite(y) | (x == y)\<close>; for tolerances that are not negative the
  two agree, except for an infinite \<open>x\<close> against a finite \<open>y\<close> when the bound itself
  overflows.)
\<close>

definition within_tol :: "float64 \<Rightarrow> float64 \<Rightarrow> float64 \<Rightarrow> float64 \<Rightarrow> bool" where
  "within_tol x y atol rtol = fle (fabs (fsub x y)) (fadd atol (fmul rtol (fabs y)))"

definition np_isclose :: "float64 \<Rightarrow> float64 \<Rightarrow> float64 \<Rightarrow> float64 \<Rightarrow> bool \<Rightarrow> bool" where
  "np_isclose x y rtol atol equal_nan =
     (if isfinite x \<and> isfinite y then within_tol x y atol rtol
      else feq x y \<or> (equal_nan \<and> isnan x \<and> isnan y))"

text \<open>\<^verbatim>\<open>np.allclose\<close>: a ValueError when the shapes do not broadcast.\<close>

definition np_allclose ::
  "ndarray \<Rightarrow> ndarray \<Rightarrow> float64 \<Rightarrow> float64 \<Rightarrow> bool \<Rightarrow> error + bool" where
  "np_allclose a b rtol atol equal_nan =
     (case broadcast_pairs a b of
        None \<Rightarrow> Inl ValueError
      | Some ps \<Rightarrow> Inr (list_all (\<lambda>(x, y). np_isclose x y rtol atol equal_nan) ps))"

section \<open>The array functions\<close>

text \<open>\<^verbatim>\<open>return np.allclose(a, b, rtol=rtol, atol=atol, equal_nan=equal_nan)\<close>\<close>

definition all_close ::
  "ndarray \<Rightarrow> ndarray \<Rightarrow> float64 \<Rightarrow> float64 \<Rightarrow> bool \<Rightarrow> error + bool" where
  "all_close a b rtol atol equal_nan = np_allclose a b rtol atol equal_nan"

text \<open>\<^verbatim>\<open>return all_close(a, np.zeros(np.shape(a)), rtol, atol, equal_nan)\<close>\<close>

definition all_near_zero :: "ndarray \<Rightarrow> float64 \<Rightarrow> float64 \<Rightarrow> bool \<Rightarrow> error + bool" where
  "all_near_zero a rtol atol equal_nan =
     all_close a (np_zeros (np_shape a)) rtol atol equal_nan"

text \<open>
  \<^verbatim>\<open>return all_close((np.array(a) + (period / 2)) % period - period / 2,\<close>
  \<^verbatim>\<open>                 np.zeros(np.shape(a)), rtol, atol, equal_nan)\<close>
\<close>

definition all_near_zero_mod ::
  "ndarray \<Rightarrow> float64 \<Rightarrow> float64 \<Rightarrow> float64 \<Rightarrow> bool \<Rightarrow> error + bool" where
  "all_near_zero_mod a period rtol atol equal_nan =
     all_close
       (np_map (\<lambda>x. fsub x (div2 period))
          (np_map (\<lambda>x. np_mod x period)
             (np_map (\<lambda>x. fadd x (div2 period)) a)))
       (np_zeros (np_shape a)) rtol atol equal_nan"

section \<open>The class Tolerance\<close>

record Tolerance =
  rtol :: float64
  atol :: float64
  equal_nan :: bool

text \<open>
  \<^verbatim>\<open>__init__(self, rtol=1e-5, atol=1e-8, equal_nan=False)\<close> stores its three arguments.
\<close>

definition Tolerance_init :: "float64 \<Rightarrow> float64 \<Rightarrow> bool \<Rightarrow> Tolerance" where
  "Tolerance_init r a e = \<lparr>rtol = r, atol = a, equal_nan = e\<rparr>"

text \<open>\<^verbatim>\<open>return all_close(a, b, self.rtol, self.atol)\<close>: the fifth argument is the
  default of the function.\<close>

definition Tolerance_all_close :: "Tolerance \<Rightarrow> ndarray \<Rightarrow> ndarray \<Rightarrow> error + bool" where
  "Tolerance_all_close self a b = all_close a b (rtol self) (atol self) DEFAULT_EQUAL_NAN"

text \<open>\<^verbatim>\<open>return all_near_zero(a, self.rtol, self.atol, self.equal_nan)\<close>\<close>

definition Tolerance_all_near_zero :: "Tolerance \<Rightarrow> ndarray \<Rightarrow> error + bool" where
  "Tolerance_all_near_zero self a = all_near_zero a (rtol self) (atol self) (equal_nan self)"

text \<open>\<^verbatim>\<open>return all_near_zero_mod(a, period, self.rtol, self.atol, self.equal_nan)\<close>\<close>

definition Tolerance_all_near_zero_mod ::
  "Tolerance \<Rightarrow> ndarray \<Rightarrow> float64 \<Rightarrow> error + bool" where
  "Tolerance_all_near_zero_mod self a period =
     all_near_zero_mod a period (rtol self) (atol self) (equal_nan self)"

text \<open>\<^verbatim>\<open>return close(a, b, atol=self.atol, rtol=self.rtol)\<close>\<close>

definition Tolerance_close :: "Tolerance \<Rightarrow> float64 \<Rightarrow> float64 \<Rightarrow> bool" where
  "Tolerance_close self a b = close a b (rtol self) (atol self)"

text \<open>\<^verbatim>\<open>return near_zero(a, atol=self.atol)\<close>\<close>

definition Tolerance_near_zero :: "Tolerance \<Rightarrow> float64 \<Rightarrow> bool" where
  "Tolerance_near_zero self a = near_zero a (atol self)"

text \<open>\<^verbatim>\<open>return near_zero_mod(a, period, atol=self.atol)\<close>\<close>

definition Tolerance_near_zero_mod :: "Tolerance \<Rightarrow> float64 \<Rightarrow> float64 \<Rightarrow> error + bool" where
  "Tolerance_near_zero_mod self a period = near_zero_mod a period (atol self)"

text \<open>\<^verbatim>\<open>Tolerance.ZERO = Tolerance(rtol=0, atol=0)\<close>\<close>

definition Tolerance_ZERO :: Tolerance where
  "Tolerance_ZERO = Tolerance_init (Fin 0) (Fin 0) False"

text \<open>\<^verbatim>\<open>Tolerance.DEFAULT = Tolerance()\<close>\<close>

definition Tolerance_DEFAULT :: Tolerance where
  "Tolerance_DEFAULT = Tolerance_init (round64 (1 / 10 ^ 5)) (round64 (1 / 10 ^ 8)) False"

section \<open>The statements of the specification\<close>

text \<open>
  The fold of the specification, an element \<open>v\<close> going to
  \<open>((v + period/2) mod period) - period/2\<close>, with the operations of the code.
\<close>

definition fold_into_period :: "float64 \<Rightarrow> float64 \<Rightarrow> float64" where
  "fold_into_period p v = fsub (float_rem (fadd v (div2 p)) p) (div2 p)"

text \<open>The half-open interval \<open>[-p/2, p/2)\<close> in which the specification places the fold.\<close>

definition in_half_open_interval :: "real \<Rightarrow> real \<Rightarrow> bool" where
  "in_half_open_interval p w = (- (p / 2) \<le> w \<and> w < p / 2)"

text \<open>The bound of the specification on real numbers: \<open>|a - b| \<le> atol + rtol * |b|\<close>.\<close>

definition spec_bound :: "real \<Rightarrow> real \<Rightarrow> real \<Rightarrow> real \<Rightarrow> bool" where
  "spec_bound a b r t = (\<bar>a - b\<bar> \<le> t + r * \<bar>b\<bar>)"

text \<open>
  Closeness of one pair of elements in the words of the specification: the bound
  \<open>|x - y| \<le> atol + rtol * |y|\<close>, where two NaNs satisfy it exactly when NaNs are
  taken as equal, and any other NaN makes it false (as the comparison does).
\<close>

definition spec_close_at :: "float64 \<Rightarrow> float64 \<Rightarrow> float64 \<Rightarrow> float64 \<Rightarrow> bool \<Rightarrow> bool" where
  "spec_close_at x y rt ab en =
     (if isnan x \<and> isnan y then en
      else fle (fabs (fsub x y)) (fadd ab (fmul rt (fabs y))))"

text \<open>The specification's result for two arrays: every pair of corresponding elements
  under broadcasting is close in that sense.\<close>

definition spec_all_close :: "ndarray \<Rightarrow> ndarray \<Rightarrow> float64 \<Rightarrow> float64 \<Rightarrow> bool \<Rightarrow> bool" where
  "spec_all_close a b rt ab en =
     (case broadcast_pairs a b of
        None \<Rightarrow> False
      | Some ps \<Rightarrow> list_all (\<lambda>(x, y). spec_close_at x y rt ab en) ps)"

text \<open>
  Closeness of one pair of elements as the code decides it: the scalar comparison
  \<^verbatim>\<open>close\<close> for two finite elements, the flag for two NaNs, an infinity close to the same
  infinity only, and nothing else close.
\<close>

fun elementwise_close :: "float64 \<Rightarrow> float64 \<Rightarrow> float64 \<Rightarrow> float64 \<Rightarrow> bool \<Rightarrow> bool" where
  "elementwise_close (Fin u) (Fin v) rt ab e = close (Fin u) (Fin v) rt ab"
| "elementwise_close NaN NaN rt ab e = e"
| "elementwise_close PInf PInf rt ab e = True"
| "elementwise_close NInf NInf rt ab e = True"
| "elementwise_close _ _ rt ab e = False"

section \<open>Properties of rounding\<close>

lemma rhe_err: "\<bar>q - of_int (round_half_even q)\<bar> \<le> 1 / 2"
  unfolding round_half_even_def Let_def by (auto; linarith)

lemma rhe_int [simp]: "round_half_even (of_int n) = n"
  unfolding round_half_even_def Let_def by simp

lemma rhe_zero [simp]: "round_half_even 0 = 0"
  using rhe_int [of 0] by simp

lemma rhe_mono: "q \<le> q' \<Longrightarrow> round_half_even q \<le> round_half_even q'"
proof -
  assume le: "q \<le> q'"
  have fl: "\<lfloor>q\<rfloor> \<le> \<lfloor>q'\<rfloor>" using le by (rule floor_mono)
  show ?thesis
  proof (cases "\<lfloor>q\<rfloor> = \<lfloor>q'\<rfloor>")
    case True
    then show ?thesis using le unfolding round_half_even_def Let_def by auto
  next
    case False
    then have "\<lfloor>q\<rfloor> + 1 \<le> \<lfloor>q'\<rfloor>" using fl by linarith
    moreover have "round_half_even q \<le> \<lfloor>q\<rfloor> + 1" unfolding round_half_even_def Let_def by auto
    moreover have "\<lfloor>q'\<rfloor> \<le> round_half_even q'" unfolding round_half_even_def Let_def by auto
    ultimately show ?thesis by linarith
  qed
qed

lemma floor_neg_nonint: "q \<noteq> of_int \<lfloor>q\<rfloor> \<Longrightarrow> \<lfloor>- q\<rfloor> = - \<lfloor>q\<rfloor> - 1" for q :: real
proof -
  assume a: "q \<noteq> of_int \<lfloor>q\<rfloor>"
  have "of_int \<lfloor>q\<rfloor> < q" using a of_int_floor_le [of q] by linarith
  moreover have "q < of_int \<lfloor>q\<rfloor> + 1" by linarith
  ultimately show ?thesis by (intro floor_unique) (simp_all, linarith+)
qed

lemma rhe_neg: "round_half_even (- q) = - round_half_even q"
proof (cases "q = of_int \<lfloor>q\<rfloor>")
  case True
  then obtain n where "q = of_int n" by metis
  then show ?thesis by (simp flip: of_int_minus)
next
  case False
  have fl: "\<lfloor>- q\<rfloor> = - \<lfloor>q\<rfloor> - 1" by (rule floor_neg_nonint [OF False])
  have lo: "of_int \<lfloor>q\<rfloor> < q" using False of_int_floor_le [of q] by linarith
  show ?thesis unfolding round_half_even_def Let_def fl
    using lo by (simp; linarith)
qed

lemma scale_pos [simp]: "0 < scale"
  by (simp add: scale_def)

lemma scale_nonzero [simp]: "scale \<noteq> 0"
  using scale_pos by linarith

lemma scale_abs [simp]: "\<bar>scale\<bar> = scale"
  by (simp add: less_imp_le)

lemma ulp_pos [simp]: "0 < ulp x"
  by (simp add: ulp_def)

lemma ulp_nonzero [simp]: "ulp x \<noteq> 0"
  using ulp_pos [of x] by linarith

lemma ulp_shift_minus [simp]: "ulp_shift (- x) = ulp_shift x"
  by (simp add: ulp_shift_def)

lemma ulp_minus [simp]: "ulp (- x) = ulp x"
  by (simp add: ulp_def)

lemma ulp_shift_upper: "\<bar>x\<bar> * scale < 2 ^ (ulp_shift x + 53)"
proof -
  define n where "n = nat \<lfloor>\<bar>x\<bar> * scale\<rfloor>"
  have nn: "0 \<le> \<bar>x\<bar> * scale" by (simp add: less_imp_le)
  have "n < 2 ^ floorlog 2 n"
  proof (cases "n = 0")
    case True then show ?thesis by simp
  next
    case False then show ?thesis using floorlog_bounds [of n 2] by simp
  qed
  also have "\<dots> \<le> 2 ^ (ulp_shift x + 53)"
    by (intro power_increasing) (simp_all add: ulp_shift_def n_def)
  finally have "Suc n \<le> 2 ^ (ulp_shift x + 53)" by simp
  then have "real (Suc n) \<le> real (2 ^ (ulp_shift x + 53))"
    by (simp only: of_nat_le_iff)
  then have "real n + 1 \<le> 2 ^ (ulp_shift x + 53)" by simp
  moreover have "\<bar>x\<bar> * scale < real n + 1"
    using nn unfolding n_def by linarith
  ultimately show ?thesis by linarith
qed

lemma ulp_shift_lower:
  assumes "0 < ulp_shift x"
  shows "2 ^ (ulp_shift x + 52) \<le> \<bar>x\<bar> * scale"
proof -
  define n where "n = nat \<lfloor>\<bar>x\<bar> * scale\<rfloor>"
  have b: "floorlog 2 n = ulp_shift x + 53" using assms by (simp add: ulp_shift_def n_def)
  have "0 < n"
  proof (rule ccontr)
    assume "\<not> 0 < n"
    then have "floorlog 2 n = 0" by (simp add: floorlog_eq_zero_iff)
    with b show False by simp
  qed
  from floorlog_bounds [OF this, of 2] b have "2 ^ (ulp_shift x + 52) \<le> n"
    by (simp add: add.commute)
  then have "real (2 ^ (ulp_shift x + 52)) \<le> real n"
    by (simp only: of_nat_le_iff)
  then have "(2::real) ^ (ulp_shift x + 52) \<le> real n" by simp
  also have "real n \<le> \<bar>x\<bar> * scale" unfolding n_def by (simp add: less_imp_le)
  finally show ?thesis .
qed

lemma ulp_shift_mono: "\<bar>x\<bar> \<le> \<bar>y\<bar> \<Longrightarrow> ulp_shift x \<le> ulp_shift y"
  unfolding ulp_shift_def
  by (intro diff_le_mono floorlog_mono nat_mono floor_mono mult_right_mono) (simp_all add: less_imp_le)

lemma ulp_shift_eqI:
  assumes "2 ^ (j + 52) \<le> \<bar>x\<bar> * scale" and "\<bar>x\<bar> * scale < 2 ^ (j + 53)"
  shows "ulp_shift x = j"
proof (rule antisym)
  show "ulp_shift x \<le> j"
  proof (rule ccontr)
    assume "\<not> ulp_shift x \<le> j"
    then have "j + 53 \<le> ulp_shift x + 52" and pos: "0 < ulp_shift x" by simp_all
    then have "(2::real) ^ (j + 53) \<le> 2 ^ (ulp_shift x + 52)"
      by (intro power_increasing) simp_all
    with ulp_shift_lower [OF pos] assms(2) show False by linarith
  qed
  show "j \<le> ulp_shift x"
  proof (rule ccontr)
    assume "\<not> j \<le> ulp_shift x"
    then have "ulp_shift x + 53 \<le> j + 52" by simp
    then have "(2::real) ^ (ulp_shift x + 53) \<le> 2 ^ (j + 52)"
      by (intro power_increasing) simp_all
    with ulp_shift_upper [of x] assms(1) show False by linarith
  qed
qed

lemma ulp_shift_zeroI:
  assumes "\<bar>x\<bar> * scale < 2 ^ 53"
  shows "ulp_shift x = 0"
proof (rule ccontr)
  assume "ulp_shift x \<noteq> 0"
  then have pos: "0 < ulp_shift x" and "53 \<le> ulp_shift x + 52" by simp_all
  then have "(2::real) ^ 53 \<le> 2 ^ (ulp_shift x + 52)"
    by (intro power_increasing) simp_all
  with ulp_shift_lower [OF pos] assms show False by linarith
qed

lemma rnd_zero [simp]: "rnd 0 = 0"
  by (simp add: rnd_def)

lemma rnd_minus: "rnd (- x) = - rnd x"
  by (simp add: rnd_def rhe_neg)

lemma rnd_nonneg: "0 \<le> x \<Longrightarrow> 0 \<le> rnd x"
proof -
  assume "0 \<le> x"
  then have "0 \<le> x / ulp x" by (simp add: less_imp_le)
  from rhe_mono [OF this] have "0 \<le> round_half_even (x / ulp x)" by simp
  then show ?thesis by (simp add: rnd_def less_imp_le)
qed

lemma rnd_error: "\<bar>rnd x - x\<bar> \<le> ulp x / 2"
proof -
  have "\<bar>x / ulp x - of_int (round_half_even (x / ulp x))\<bar> * ulp x \<le> 1 / 2 * ulp x"
    by (intro mult_right_mono rhe_err) (simp add: less_imp_le)
  moreover have "\<bar>x / ulp x - of_int (round_half_even (x / ulp x))\<bar> * ulp x = \<bar>rnd x - x\<bar>"
  proof -
    have "\<bar>x / ulp x - of_int (round_half_even (x / ulp x))\<bar> * ulp x
        = \<bar>(x / ulp x - of_int (round_half_even (x / ulp x))) * ulp x\<bar>"
      by (simp add: abs_mult less_imp_le)
    also have "(x / ulp x - of_int (round_half_even (x / ulp x))) * ulp x = x - rnd x"
      by (simp add: rnd_def algebra_simps)
    finally show ?thesis by (simp add: abs_minus_commute)
  qed
  ultimately show ?thesis by simp
qed


lemma div_ulp: "x / ulp x = x * scale / 2 ^ ulp_shift x"
  by (simp add: ulp_def)

lemma rnd_scaled: "rnd x * scale = of_int (round_half_even (x * scale / 2 ^ ulp_shift x)) * 2 ^ ulp_shift x"
  by (simp add: rnd_def div_ulp) (simp add: ulp_def)

text \<open>Exactness: a multiple of a power of two with a mantissa of at most 53 bits.\<close>

lemma rnd_exact_strict:
  assumes m: "\<bar>m\<bar> < 2 ^ 53" and x: "x * scale = of_int m * 2 ^ k"
  shows "rnd x = x"
proof -
  define j where "j = ulp_shift x"
  have "\<bar>x * scale\<bar> = \<bar>of_int m * (2::real) ^ k\<bar>" using x by simp
  then have ax: "\<bar>x\<bar> * scale = of_int \<bar>m\<bar> * 2 ^ k"
    by (simp add: abs_mult)
  have "real_of_int \<bar>m\<bar> < real_of_int (2 ^ 53)" using m by (simp only: of_int_less_iff)
  then have m': "real_of_int \<bar>m\<bar> < 2 ^ 53" by simp
  have jk: "j \<le> k"
  proof (rule ccontr)
    assume "\<not> j \<le> k"
    then have pos: "0 < ulp_shift x" and "k + 53 \<le> ulp_shift x + 52" by (simp_all add: j_def)
    then have "(2::real) ^ (k + 53) \<le> 2 ^ (ulp_shift x + 52)"
      by (intro power_increasing) simp_all
    also have "\<dots> \<le> \<bar>x\<bar> * scale" by (rule ulp_shift_lower [OF pos])
    also have "\<dots> < 2 ^ 53 * 2 ^ k"
      unfolding ax using m' by (intro mult_strict_right_mono) simp_all
    also have "\<dots> = 2 ^ (k + 53)" by (simp add: power_add)
    finally show False by simp
  qed
  then have k: "k = (k - j) + j" by simp
  have "(2::real) ^ k = 2 ^ (k - j) * 2 ^ j"
    by (subst k) (simp only: power_add)
  then have "x * scale / 2 ^ j = of_int (m * 2 ^ (k - j))"
    using x by simp
  then have "rnd x * scale = of_int (m * 2 ^ (k - j)) * 2 ^ j"
    using rnd_scaled [of x] by (simp only: j_def rhe_int)
  also have "\<dots> = of_int m * (2 ^ (k - j) * 2 ^ j)" by simp
  also have "\<dots> = of_int m * 2 ^ k" by (simp only: power_add [symmetric] k [symmetric])
  finally have "rnd x * scale = x * scale" using x by simp
  then show ?thesis by simp
qed

lemma rnd_exact:
  assumes m: "\<bar>m\<bar> \<le> 2 ^ 53" and x: "x * scale = of_int m * 2 ^ k"
  shows "rnd x = x"
proof (cases "\<bar>m\<bar> < 2 ^ 53")
  case True
  then show ?thesis using x by (rule rnd_exact_strict)
next
  case False
  with m have "\<bar>m\<bar> = 2 ^ 53" by simp
  then have "m = 2 ^ 53 \<or> m = - (2 ^ 53)" by linarith
  then have "x * scale = of_int (m div 2) * 2 ^ (k + 1) \<and> \<bar>m div 2\<bar> < 2 ^ 53"
    using x by auto
  then show ?thesis using rnd_exact_strict by blast
qed


text \<open>The result of rounding has a mantissa of at most 53 bits.\<close>

lemma rhe_bound:
  assumes "\<bar>q\<bar> \<le> of_int n"
  shows "\<bar>round_half_even q\<bar> \<le> n"
proof -
  have "q \<le> of_int n" and "of_int (- n) \<le> q" using assms by simp_all
  from rhe_mono [OF this(1)] rhe_mono [OF this(2)] show ?thesis
    unfolding rhe_int by linarith
qed

lemma rnd_mantissa: "\<bar>round_half_even (x * scale / 2 ^ ulp_shift x)\<bar> \<le> 2 ^ 53"
proof -
  have "\<bar>x * scale / 2 ^ ulp_shift x\<bar> = \<bar>x\<bar> * scale / 2 ^ ulp_shift x"
    by (simp add: abs_mult)
  also have "\<dots> \<le> 2 ^ (ulp_shift x + 53) / 2 ^ ulp_shift x"
    using ulp_shift_upper [of x] by (intro divide_right_mono) simp_all
  also have "\<dots> = 2 ^ 53" by (simp add: power_add)
  finally have "\<bar>x * scale / 2 ^ ulp_shift x\<bar> \<le> of_int (2 ^ 53)" by simp
  then show ?thesis by (rule rhe_bound)
qed

lemma rnd_idem [simp]: "rnd (rnd x) = rnd x"
  using rnd_mantissa [of x] rnd_scaled [of x] by (rule rnd_exact)

lemma rnd_double_exact: "rnd (2 * rnd x) = 2 * rnd x"
proof -
  have "2 * rnd x * scale = of_int (round_half_even (x * scale / 2 ^ ulp_shift x)) * 2 ^ (ulp_shift x + 1)"
    using rnd_scaled [of x] by simp
  with rnd_mantissa [of x] show ?thesis by (rule rnd_exact)
qed

text \<open>Rounding is monotone.\<close>

lemma rnd_mono_nonneg:
  assumes "0 \<le> x" and "x \<le> y"
  shows "rnd x \<le> rnd y"
proof -
  have sh: "ulp_shift x \<le> ulp_shift y" using assms by (intro ulp_shift_mono) simp
  have "rnd x * scale \<le> rnd y * scale"
  proof (cases "ulp_shift x = ulp_shift y")
    case True
    have "x * scale / 2 ^ ulp_shift y \<le> y * scale / 2 ^ ulp_shift y"
      using assms by (intro divide_right_mono mult_right_mono) (simp_all add: less_imp_le)
    from rhe_mono [OF this] show ?thesis
      unfolding rnd_scaled True by (intro mult_right_mono) simp_all
  next
    case False
    with sh have lt: "ulp_shift x + 53 \<le> ulp_shift y + 52" and pos: "0 < ulp_shift y" by simp_all
    have "x * scale / 2 ^ ulp_shift x \<le> 2 ^ (ulp_shift x + 53) / 2 ^ ulp_shift x"
      using ulp_shift_upper [of x] assms by (intro divide_right_mono) simp_all
    also have "\<dots> = of_int (2 ^ 53)" by (simp add: power_add)
    finally have "round_half_even (x * scale / 2 ^ ulp_shift x) \<le> 2 ^ 53"
      using rhe_mono rhe_int by metis
    then have "real_of_int (round_half_even (x * scale / 2 ^ ulp_shift x)) \<le> real_of_int (2 ^ 53)"
      by (simp only: of_int_le_iff)
    then have "rnd x * scale \<le> 2 ^ 53 * 2 ^ ulp_shift x"
      unfolding rnd_scaled by (intro mult_right_mono) simp_all
    also have "\<dots> = 2 ^ (ulp_shift x + 53)" by (simp add: power_add)
    also have "\<dots> \<le> 2 ^ (ulp_shift y + 52)" using lt by (intro power_increasing) simp_all
    also have "\<dots> = of_int (2 ^ 52) * 2 ^ ulp_shift y" by (simp add: power_add)
    also have "\<dots> \<le> rnd y * scale"
    proof -
      have y0: "0 \<le> y" using assms by simp
      have "of_int (2 ^ 52) = 2 ^ (ulp_shift y + 52) / (2::real) ^ ulp_shift y"
        by (simp add: power_add)
      also have "\<dots> \<le> y * scale / 2 ^ ulp_shift y"
        using ulp_shift_lower [OF pos] y0 by (intro divide_right_mono) simp_all
      finally have "2 ^ 52 \<le> round_half_even (y * scale / 2 ^ ulp_shift y)"
        using rhe_mono rhe_int by metis
      then have "real_of_int (2 ^ 52) \<le> real_of_int (round_half_even (y * scale / 2 ^ ulp_shift y))"
        by (simp only: of_int_le_iff)
      then show ?thesis unfolding rnd_scaled by (intro mult_right_mono) simp_all
    qed
    finally show ?thesis .
  qed
  then show ?thesis by simp
qed

lemma rnd_mono:
  assumes "x \<le> y"
  shows "rnd x \<le> rnd y"
proof (cases "0 \<le> x")
  case True
  then show ?thesis using assms by (rule rnd_mono_nonneg)
next
  case False
  show ?thesis
  proof (cases "y \<le> 0")
    case True
    then have "0 \<le> - y" and "- y \<le> - x" using assms by simp_all
    from rnd_mono_nonneg [OF this] show ?thesis by (simp add: rnd_minus)
  next
    case y: False
    have "0 \<le> rnd y" using y by (intro rnd_nonneg) simp
    moreover have "0 \<le> rnd (- x)" using False by (intro rnd_nonneg) simp
    ultimately show ?thesis by (simp add: rnd_minus)
  qed
qed

section \<open>Properties of the floats\<close>

lemma huge_pos [simp]: "0 < huge"
  by (simp add: huge_def)

lemma power_less_huge: "k \<le> 1023 \<Longrightarrow> (2::real) ^ k < huge"
  unfolding huge_def by (rule power_strict_increasing) simp_all

lemma scale_split: "e \<le> 1074 \<Longrightarrow> scale = 2 ^ e * 2 ^ (1074 - e)"
  unfolding scale_def by (simp only: power_add [symmetric] le_add_diff_inverse)

lemma round64_Fin: "\<bar>rnd x\<bar> < huge \<Longrightarrow> round64 x = Fin (rnd x)"
  by (auto simp: round64_def Let_def)

lemma round64_double: "is_double x \<Longrightarrow> round64 x = Fin x"
  by (simp add: is_double_def round64_Fin)

lemma is_double_zero [simp]: "is_double 0"
  by (simp add: is_double_def)

lemma is_double_minus [simp]: "is_double (- x) = is_double x"
  by (auto simp: is_double_def rnd_minus)

lemma is_double_rnd: "\<bar>rnd x\<bar> < huge \<Longrightarrow> is_double (rnd x)"
  by (simp add: is_double_def)

lemma is_double_int:
  assumes "\<bar>n\<bar> \<le> 2 ^ 53"
  shows "is_double (of_int n)"
proof -
  have "of_int n * scale = of_int n * (2::real) ^ 1074" by (simp only: scale_def)
  with assms have "rnd (of_int n) = of_int n" by (rule rnd_exact)
  moreover have "\<bar>real_of_int n\<bar> < huge"
  proof -
    have "real_of_int \<bar>n\<bar> \<le> real_of_int (2 ^ 53)" using assms by (simp only: of_int_le_iff)
    then have "\<bar>real_of_int n\<bar> \<le> 2 ^ 53" by simp
    also have "\<dots> < huge" by (rule power_less_huge) simp
    finally show ?thesis .
  qed
  ultimately show ?thesis by (simp add: is_double_def)
qed

lemma is_double_frac:
  assumes "\<bar>m\<bar> \<le> 2 ^ 53" and "e \<le> 1074"
  shows "is_double (of_int m / 2 ^ e)"
proof -
  have "of_int m / 2 ^ e * scale = of_int m * (2::real) ^ (1074 - e)"
    by (subst scale_split [OF assms(2)]) simp
  with assms(1) have "rnd (of_int m / 2 ^ e) = of_int m / 2 ^ e" by (rule rnd_exact)
  moreover have "\<bar>real_of_int m / 2 ^ e\<bar> < huge"
  proof -
    have "real_of_int \<bar>m\<bar> \<le> real_of_int (2 ^ 53)" using assms by (simp only: of_int_le_iff)
    then have m: "\<bar>real_of_int m\<bar> \<le> 2 ^ 53" by simp
    have "\<bar>real_of_int m / 2 ^ e\<bar> = \<bar>real_of_int m\<bar> / 2 ^ e" by simp
    also have "\<dots> \<le> \<bar>real_of_int m\<bar> / 1"
      by (intro divide_left_mono) simp_all
    also have "\<dots> \<le> 2 ^ 53" using m by simp
    also have "\<dots> < huge" by (rule power_less_huge) simp
    finally show ?thesis .
  qed
  ultimately show ?thesis by (simp add: is_double_def)
qed

lemma is_double_scaled:
  assumes "\<bar>m\<bar> \<le> 2 ^ 53" and "e \<le> 970"
  shows "is_double (of_int m * 2 ^ e)"
proof -
  have "of_int m * 2 ^ e * scale = of_int m * (2::real) ^ (e + 1074)"
    by (simp add: scale_def power_add)
  with assms(1) have "rnd (of_int m * 2 ^ e) = of_int m * 2 ^ e" by (rule rnd_exact)
  moreover have "\<bar>real_of_int m * 2 ^ e\<bar> < huge"
  proof -
    have "real_of_int \<bar>m\<bar> \<le> real_of_int (2 ^ 53)" using assms by (simp only: of_int_le_iff)
    then have m: "\<bar>real_of_int m\<bar> \<le> 2 ^ 53" by simp
    have "\<bar>real_of_int m * 2 ^ e\<bar> = \<bar>real_of_int m\<bar> * 2 ^ e" by (simp add: abs_mult)
    also have "\<dots> \<le> 2 ^ 53 * 2 ^ e" using m by (intro mult_right_mono) simp_all
    also have "\<dots> = 2 ^ (53 + e)" by (simp add: power_add)
    also have "\<dots> < huge" using assms(2) by (intro power_less_huge) simp
    finally show ?thesis .
  qed
  ultimately show ?thesis by (simp add: is_double_def)
qed

lemma round64_between:
  assumes "lo \<le> x" and "x \<le> hi" and "is_double lo" and "is_double hi"
  shows "round64 x = Fin (rnd x) \<and> lo \<le> rnd x \<and> rnd x \<le> hi"
proof -
  have "rnd lo \<le> rnd x" and "rnd x \<le> rnd hi" using assms by (simp_all add: rnd_mono)
  then have b: "lo \<le> rnd x" "rnd x \<le> hi" using assms by (simp_all add: is_double_def)
  moreover have "\<bar>rnd x\<bar> < huge" using b assms(3,4) unfolding is_double_def by linarith
  ultimately show ?thesis by (simp add: round64_Fin)
qed

lemma round64_nonneg:
  assumes "0 \<le> x"
  shows "round64 x = PInf \<or> (\<exists>y. round64 x = Fin y \<and> 0 \<le> y)"
  using rnd_nonneg [OF assms] huge_pos by (auto simp: round64_def Let_def)

text \<open>Evaluation of a rounding from the binade of its argument.\<close>

lemma rnd_large:
  assumes "2 ^ 52 * 2 ^ e \<le> \<bar>x\<bar>" and "\<bar>x\<bar> < 2 ^ 53 * 2 ^ e"
  shows "rnd x = of_int (round_half_even (x / 2 ^ e)) * 2 ^ e"
proof -
  have "2 ^ (e + 1074 + 52) = 2 ^ 52 * 2 ^ e * scale"
    by (simp add: scale_def power_add)
  also have "\<dots> \<le> \<bar>x\<bar> * scale" using assms(1) by (intro mult_right_mono) (simp_all add: less_imp_le)
  finally have lo: "2 ^ (e + 1074 + 52) \<le> \<bar>x\<bar> * scale" .
  have "\<bar>x\<bar> * scale < 2 ^ 53 * 2 ^ e * scale" using assms(2) by (intro mult_strict_right_mono) simp_all
  also have "\<dots> = 2 ^ (e + 1074 + 53)" by (simp add: scale_def power_add)
  finally have "ulp_shift x = e + 1074" using lo by (intro ulp_shift_eqI)
  then have "ulp x = 2 ^ e" by (simp add: ulp_def scale_def power_add)
  then show ?thesis by (simp add: rnd_def)
qed

lemma rnd_small:
  assumes "e \<le> 1074" and "2 ^ 52 \<le> \<bar>x\<bar> * 2 ^ e" and "\<bar>x\<bar> * 2 ^ e < 2 ^ 53"
  shows "rnd x = of_int (round_half_even (x * 2 ^ e)) / 2 ^ e"
proof -
  have sc: "\<bar>x\<bar> * scale = \<bar>x\<bar> * 2 ^ e * 2 ^ (1074 - e)"
    by (subst scale_split [OF assms(1)]) simp
  have "(2::real) ^ (1074 - e + 52) = 2 ^ 52 * 2 ^ (1074 - e)" by (simp add: power_add)
  also have "\<dots> \<le> \<bar>x\<bar> * scale" unfolding sc using assms(2) by (intro mult_right_mono) simp_all
  finally have lo: "2 ^ (1074 - e + 52) \<le> \<bar>x\<bar> * scale" .
  have "\<bar>x\<bar> * scale < 2 ^ 53 * 2 ^ (1074 - e)"
    unfolding sc using assms(3) by (intro mult_strict_right_mono) simp_all
  also have "\<dots> = 2 ^ (1074 - e + 53)" by (simp add: power_add)
  finally have "ulp_shift x = 1074 - e" using lo by (intro ulp_shift_eqI)
  then have "ulp x = 2 ^ (1074 - e) / (2 ^ e * 2 ^ (1074 - e))"
    unfolding ulp_def by (subst scale_split [OF assms(1)]) simp
  then have "ulp x = 1 / 2 ^ e" by simp
  then show ?thesis by (simp add: rnd_def)
qed

lemma is_double_numeral: "(numeral n :: int) \<le> 2 ^ 53 \<Longrightarrow> is_double (numeral n)"
  using is_double_int [of "numeral n"] by simp

lemma is_double_one [simp]: "is_double 1"
  using is_double_int [of 1] by simp

lemma round64_zero [simp]: "round64 0 = Fin 0"
  by (simp add: round64_double)

lemma round64_literal:
  assumes "lo \<le> x" and "x \<le> hi" and "is_double lo" and "is_double hi"
  shows "\<exists>y. round64 x = Fin y \<and> lo \<le> y \<and> y \<le> hi \<and> is_double y"
proof -
  from round64_between [OF assms] have b: "round64 x = Fin (rnd x)" "lo \<le> rnd x" "rnd x \<le> hi"
    by simp_all
  then have "\<bar>rnd x\<bar> < huge" using assms(3,4) unfolding is_double_def by linarith
  then have "is_double (rnd x)" by (rule is_double_rnd)
  with b show ?thesis by blast
qed

lemma DEFAULT_RTOL_value:
  "\<exists>y. DEFAULT_RTOL = Fin y \<and> 1 / 2 ^ 17 \<le> y \<and> y \<le> 1 / 2 ^ 16 \<and> is_double y"
  unfolding DEFAULT_RTOL_def
  using is_double_frac [of 1 17] is_double_frac [of 1 16]
  by (intro round64_literal) simp_all

lemma DEFAULT_ATOL_value:
  "\<exists>y. DEFAULT_ATOL = Fin y \<and> 1 / 2 ^ 27 \<le> y \<and> y \<le> 1 / 2 ^ 26 \<and> is_double y"
  unfolding DEFAULT_ATOL_def
  using is_double_frac [of 1 27] is_double_frac [of 1 26]
  by (intro round64_literal) simp_all

section \<open>Properties of the scalar functions\<close>

lemma fle_NaN_right: "fle x NaN = False"
  by (cases x) simp_all

lemma fadd_NaN_right: "fadd x NaN = NaN"
  by (cases x) simp_all

lemma fmul_NaN_right: "fmul x NaN = NaN"
  by (cases x) simp_all

lemma close_NaN_left: "close NaN b rt ab = False"
  by (simp add: close_def fsub_def)

lemma close_NaN_right: "close a NaN rt ab = False"
  by (simp add: close_def fsub_def fadd_NaN_right fmul_NaN_right fle_NaN_right)

lemma close_exact:
  assumes "is_double (a - b)" and "is_double (r * \<bar>b\<bar>)" and "is_double (t + r * \<bar>b\<bar>)"
  shows "close (Fin a) (Fin b) (Fin r) (Fin t) = (\<bar>a - b\<bar> \<le> t + r * \<bar>b\<bar>)"
  using assms by (simp add: close_def fsub_def round64_double)

lemma close_refl:
  assumes "0 \<le> r" and "0 \<le> t"
  shows "close (Fin x) (Fin x) (Fin r) (Fin t)"
proof -
  have "0 \<le> r * \<bar>x\<bar>" using assms by simp
  from round64_nonneg [OF this] show ?thesis
  proof
    assume "round64 (r * \<bar>x\<bar>) = PInf"
    then show ?thesis by (simp add: close_def fsub_def)
  next
    assume "\<exists>y. round64 (r * \<bar>x\<bar>) = Fin y \<and> 0 \<le> y"
    then obtain y where y: "round64 (r * \<bar>x\<bar>) = Fin y" "0 \<le> y" by blast
    then have "0 \<le> t + y" using assms by simp
    from round64_nonneg [OF this] show ?thesis
      using y by (auto simp: close_def fsub_def)
  qed
qed

text \<open>
  Claim C4, as the code has it: \<open>close(a, b, rtol, atol)\<close> is the comparison
  \<open>abs(a - b) <= atol + rtol * abs(b)\<close> with every operation rounded to the nearest double.
  For \<open>rtol, atol \<ge> 0\<close>, whenever the difference \<open>a - b\<close>, the product \<open>rtol * |b|\<close> and
  the sum \<open>atol + rtol * |b|\<close> are doubles (nothing is rounded), the result is true if and
  only if \<open>|a - b| \<le> atol + rtol * |b|\<close>. The result is false as soon as \<open>a\<close> or \<open>b\<close> is
  NaN, whatever the tolerances (there is no argument to take NaNs as equal).
\<close>

theorem close_is_the_rounded_bound:
  assumes "0 \<le> r" and "0 \<le> t"
  shows "close x y rt ab = fle (fabs (fsub x y)) (fadd ab (fmul rt (fabs y)))
    \<and> (is_double (a - b) \<and> is_double (r * \<bar>b\<bar>) \<and> is_double (t + r * \<bar>b\<bar>) \<longrightarrow>
         close (Fin a) (Fin b) (Fin r) (Fin t) = (\<bar>a - b\<bar> \<le> t + r * \<bar>b\<bar>))
    \<and> close NaN y rt ab = False
    \<and> close x NaN rt ab = False"
  by (simp add: close_exact close_NaN_left close_NaN_right) (simp add: close_def)

theorem close_is_the_rounded_bound_witness:
  "(0::real) \<le> 1 / 2 \<and> (0::real) \<le> 1
   \<and> is_double (3 - 1) \<and> is_double (1 / 2 * \<bar>1\<bar>) \<and> is_double (1 + 1 / 2 * \<bar>1\<bar>)
   \<and> close (Fin 3) (Fin 1) (Fin (1 / 2)) (Fin 1) = False
   \<and> close (Fin 3) (Fin 2) (Fin (1 / 2)) (Fin 1) = True"
proof -
  have h1: "(0::real) \<le> 1 / 2" and h2: "(0::real) \<le> 1" by simp_all
  have d: "is_double 2" "is_double (1 / 2)" "is_double (3 / 2)"
    using is_double_int [of 2] is_double_frac [of 1 1] is_double_frac [of 3 1] by simp_all
  show ?thesis
    using h1 d
      close_is_the_rounded_bound [OF h1 h2, of NaN NaN NaN NaN 3 1]
      close_is_the_rounded_bound [OF h1 h2, of NaN NaN NaN NaN 3 2]
    by simp
qed

text \<open>
  The claim as the specification words it, with the bound on the real numbers, fails where
  an operation rounds: \<open>close(10000000000000002.0, 1.0, 0.0, 1e16)\<close> is true, because the
  difference \<open>10000000000000001\<close> is halfway between two doubles and rounds to \<open>1e16\<close>,
  although \<open>|a - b| \<le> atol + rtol * |b|\<close> is false. The four arguments are doubles.
\<close>

lemma rnd_tie_1e16: "rnd (10 ^ 16 + 1) = 10 ^ 16"
proof -
  have "rnd (10 ^ 16 + 1) = of_int (round_half_even ((10 ^ 16 + 1) / 2 ^ 1)) * 2 ^ 1"
    by (rule rnd_large) simp_all
  also have "round_half_even ((10 ^ 16 + 1) / 2 ^ 1) = 5 * 10 ^ 15"
    by (simp add: round_half_even_def Let_def)
  finally show ?thesis by simp
qed

theorem close_rounding_counterexample:
  "is_double (10 ^ 16 + 2) \<and> is_double 1 \<and> is_double 0 \<and> is_double (10 ^ 16)
   \<and> close (Fin (10 ^ 16 + 2)) (Fin 1) (Fin 0) (Fin (10 ^ 16))
   \<and> \<not> spec_bound (10 ^ 16 + 2) 1 0 (10 ^ 16)"
proof -
  have d1: "is_double (10 ^ 16 + 2)" using is_double_scaled [of "5 * 10 ^ 15 + 1" 1] by simp
  have d2: "is_double (10 ^ 16)" using is_double_scaled [of "5 ^ 16" 16] by simp
  have "\<bar>rnd (10 ^ 16 + 1)\<bar> < huge"
    using d2 rnd_tie_1e16 by (simp add: is_double_def)
  then have "round64 (10 ^ 16 + 1) = Fin (10 ^ 16)" using rnd_tie_1e16 by (simp add: round64_Fin)
  then have "close (Fin (10 ^ 16 + 2)) (Fin 1) (Fin 0) (Fin (10 ^ 16))"
    using d2 by (simp add: close_def fsub_def round64_double)
  then show ?thesis using d1 d2 by (simp add: spec_bound_def)
qed

text \<open>
  Claim C7: \<open>close\<close> is not symmetric. \<open>close(0, 100, rtol=1, atol=0)\<close> is true and
  \<open>close(100, 0, rtol=1, atol=0)\<close> is false: the relative term follows the second argument.
\<close>

theorem close_not_symmetric:
  "close (Fin 0) (Fin 100) (Fin 1) (Fin 0) \<and> \<not> close (Fin 100) (Fin 0) (Fin 1) (Fin 0)"
  by (simp add: close_def fsub_def round64_double is_double_numeral)

text \<open>
  Claim C10: \<open>near_zero(a, atol)\<close> is \<open>close(a, 0, rtol, atol)\<close> for every float \<open>a\<close>,
  every float \<open>atol\<close> and every finite \<open>rtol\<close>: the relative term is \<open>rtol * 0\<close>, and
  \<open>a - 0\<close> and \<open>atol + 0\<close> are not rounded.
\<close>

theorem near_zero_is_close_to_zero:
  assumes "is_float a" and "is_float ab"
  shows "close a (Fin 0) (Fin r) ab = near_zero a ab"
  using assms
  by (cases a; cases ab) (simp_all add: close_def near_zero_def fsub_def round64_double)

theorem near_zero_is_close_to_zero_witness:
  "is_float (Fin (1 / 2)) \<and> is_float (Fin 1)
   \<and> close (Fin (1 / 2)) (Fin 0) (Fin 7) (Fin 1) = near_zero (Fin (1 / 2)) (Fin 1)
   \<and> is_float NInf \<and> is_float PInf
   \<and> close NInf (Fin 0) (Fin 7) PInf = near_zero NInf PInf"
proof -
  have h1: "is_float (Fin (1 / 2))" using is_double_frac [of 1 1] by simp
  have h2: "is_float (Fin 1)" by simp
  have h3: "is_float NInf" and h4: "is_float PInf" by simp_all
  show ?thesis
    using h1 h2 near_zero_is_close_to_zero [OF h1 h2, of 7]
      near_zero_is_close_to_zero [OF h3 h4, of 7]
    by simp
qed

section \<open>Properties of the array functions\<close>

lemma np_isclose_elementwise:
  "np_isclose x y rt ab en = elementwise_close x y rt ab en"
  by (cases x; cases y) (simp_all add: np_isclose_def within_tol_def close_def feq_def)

lemma np_isclose_refl:
  assumes "0 \<le> r" and "0 \<le> t" and "x \<noteq> NaN"
  shows "np_isclose x x (Fin r) (Fin t) en"
proof (cases x)
  case (Fin u)
  have "within_tol (Fin u) (Fin u) (Fin t) (Fin r) = close (Fin u) (Fin u) (Fin r) (Fin t)"
    by (simp add: within_tol_def close_def)
  then show ?thesis using Fin close_refl [OF assms(1,2), of u] by (simp add: np_isclose_def)
qed (use assms in \<open>simp_all add: np_isclose_def feq_def\<close>)

lemma broadcast_rev_same: "broadcast_rev s s = Some s"
  by (induction s) simp_all

lemma broadcast_shapes_same: "broadcast_shapes s s = Some s"
  by (simp add: broadcast_shapes_def broadcast_rev_same)

lemma offset_bound:
  "idx \<in> set (indices s) \<Longrightarrow> length idx = length s \<and> offset s idx < prod_list s"
proof (induction s arbitrary: idx)
  case Nil
  then show ?case by simp
next
  case (Cons n ns)
  then obtain i rest where i: "i < n" and rest: "rest \<in> set (indices ns)" and idx: "idx = i # rest"
    by auto
  from Cons.IH [OF rest] have len: "length rest = length ns" and off: "offset ns rest < prod_list ns"
    by simp_all
  have "(if n = 1 then 0 else i) * prod_list ns + offset ns rest < (i + 1) * prod_list ns"
    using off by (simp add: algebra_simps)
  also have "\<dots> \<le> n * prod_list ns"
    using i by (intro mult_le_mono1) simp
  finally show ?case using len idx by simp
qed

lemma item_in_data:
  assumes "well_formed a" and "idx \<in> set (indices (shape a))"
  shows "item a idx \<in> set (data a)"
proof -
  from offset_bound [OF assms(2)] have "length idx = length (shape a)"
    and "offset (shape a) idx < prod_list (shape a)" by simp_all
  then show ?thesis using assms(1) by (simp add: item_def well_formed_def)
qed

lemma all_close_same:
  assumes "0 \<le> r" and "0 \<le> t" and wf: "well_formed a" and nn: "NaN \<notin> set (data a)"
  shows "all_close a a (Fin r) (Fin t) en = Inr True"
proof -
  have "np_isclose (item a idx) (item a idx) (Fin r) (Fin t) en"
    if "idx \<in> set (indices (shape a))" for idx
  proof -
    from item_in_data [OF wf that] nn have "item a idx \<noteq> NaN" by metis
    then show ?thesis using assms by (simp add: np_isclose_refl)
  qed
  then show ?thesis
    by (simp add: all_close_def np_allclose_def broadcast_pairs_def broadcast_shapes_same
        list_all_iff)
qed

text \<open>
  Claim C2, as the code has it: when the shapes of \<open>a\<close> and \<open>b\<close> broadcast to \<open>s\<close>,
  \<open>all_close(a, b, rtol, atol, equal_nan)\<close> with tolerances \<open>rtol, atol \<ge> 0\<close> returns
  whether every pair of corresponding elements is close, where two finite elements \<open>x, y\<close>
  are close when \<open>abs(x - y) <= atol + rtol * abs(y)\<close> holds in double arithmetic (that is,
  when the scalar \<open>close(x, y, rtol, atol)\<close> is true), two NaNs are close when \<open>equal_nan\<close>
  is true, an infinity is close to the same infinity only, and a NaN is close to nothing
  else.
\<close>

theorem all_close_elementwise:
  assumes "broadcast_shapes (shape a) (shape b) = Some s" and "0 \<le> r" and "0 \<le> t"
  shows "all_close a b (Fin r) (Fin t) en =
    Inr (\<forall>idx \<in> set (indices s).
           elementwise_close (item a idx) (item b idx) (Fin r) (Fin t) en)"
  using assms(1)
  by (simp add: all_close_def np_allclose_def broadcast_pairs_def list_all_iff
      np_isclose_elementwise)

text \<open>
  The theorem at arrays of shapes \<open>(2, 1)\<close> and \<open>(3,)\<close>, which broadcast to \<open>(2, 3)\<close>, and
  at \<open>[NaN]\<close> against \<open>[NaN]\<close> with and without \<open>equal_nan\<close>.
\<close>

theorem all_close_elementwise_witness:
  "broadcast_shapes (shape \<lparr>shape = [2, 1], data = [Fin 1, Fin 2]\<rparr>)
     (shape \<lparr>shape = [3], data = [Fin 1, Fin 2, Fin 1]\<rparr>) = Some [2, 3]
   \<and> (0::real) \<le> 0 \<and> (0::real) \<le> 1
   \<and> all_close \<lparr>shape = [2, 1], data = [Fin 1, Fin 2]\<rparr>
       \<lparr>shape = [3], data = [Fin 1, Fin 2, Fin 1]\<rparr> (Fin 0) (Fin 1) False = Inr True
   \<and> all_close \<lparr>shape = [2, 1], data = [Fin 1, PInf]\<rparr>
       \<lparr>shape = [3], data = [Fin 1, Fin 1, Fin 1]\<rparr> (Fin 0) (Fin 1) False = Inr False
   \<and> all_close \<lparr>shape = [1], data = [NaN]\<rparr> \<lparr>shape = [1], data = [NaN]\<rparr>
       (Fin 0) (Fin 1) True = Inr True
   \<and> all_close \<lparr>shape = [1], data = [NaN]\<rparr> \<lparr>shape = [1], data = [NaN]\<rparr>
       (Fin 0) (Fin 1) False = Inr False"
proof -
  have h: "broadcast_shapes (shape \<lparr>shape = [2, 1], data = [Fin 1, Fin 2]\<rparr>)
     (shape \<lparr>shape = [3], data = [Fin 1, Fin 2, Fin 1]\<rparr>) = Some [2, 3]"
    by (simp add: broadcast_shapes_def)
  have h': "broadcast_shapes (shape \<lparr>shape = [2, 1], data = [Fin 1, PInf]\<rparr>)
     (shape \<lparr>shape = [3], data = [Fin 1, Fin 1, Fin 1]\<rparr>) = Some [2, 3]"
    by (simp add: broadcast_shapes_def)
  have h'': "broadcast_shapes (shape \<lparr>shape = [1], data = [NaN]\<rparr>)
     (shape \<lparr>shape = [1], data = [NaN]\<rparr>) = Some [1]"
    by (simp add: broadcast_shapes_def)
  have r: "(0::real) \<le> 0" and t: "(0::real) \<le> 1" by simp_all
  have c: "close (Fin 1) (Fin 1) (Fin 0) (Fin 1)" "close (Fin 1) (Fin 2) (Fin 0) (Fin 1)"
    "close (Fin 2) (Fin 1) (Fin 0) (Fin 1)" "close (Fin 2) (Fin 2) (Fin 0) (Fin 1)"
    by (simp_all add: close_def fsub_def round64_double is_double_numeral)
  show ?thesis
    using h r t c
      all_close_elementwise [OF h r t, of False]
      all_close_elementwise [OF h' r t, of False]
      all_close_elementwise [OF h'' r t, of True]
      all_close_elementwise [OF h'' r t, of False]
    by (simp add: item_def numeral_2_eq_2 numeral_3_eq_3 atLeast0_lessThan_Suc)
qed

text \<open>
  The claim as the specification words it fails on infinite elements. With the default
  tolerances, \<open>all_close([1.0], [inf])\<close> is false although the bound holds there
  (\<open>inf \<le> atol + rtol * inf\<close>), and \<open>all_close([inf], [inf])\<close> is true although the bound
  does not hold there (\<open>abs(inf - inf)\<close> is NaN).
\<close>

theorem all_close_infinity_counterexample:
  "all_close \<lparr>shape = [1], data = [Fin 1]\<rparr> \<lparr>shape = [1], data = [PInf]\<rparr>
     DEFAULT_RTOL DEFAULT_ATOL False = Inr False
   \<and> spec_all_close \<lparr>shape = [1], data = [Fin 1]\<rparr> \<lparr>shape = [1], data = [PInf]\<rparr>
     DEFAULT_RTOL DEFAULT_ATOL False
   \<and> all_close \<lparr>shape = [1], data = [PInf]\<rparr> \<lparr>shape = [1], data = [PInf]\<rparr>
     DEFAULT_RTOL DEFAULT_ATOL False = Inr True
   \<and> \<not> spec_all_close \<lparr>shape = [1], data = [PInf]\<rparr> \<lparr>shape = [1], data = [PInf]\<rparr>
     DEFAULT_RTOL DEFAULT_ATOL False"
proof -
  obtain y where y: "DEFAULT_RTOL = Fin y" "1 / 2 ^ 17 \<le> y" using DEFAULT_RTOL_value by blast
  obtain z where z: "DEFAULT_ATOL = Fin z" using DEFAULT_ATOL_value by blast
  have "0 < y" using y(2) by (rule less_le_trans [rotated]) simp
  then show ?thesis
    unfolding y(1) z
    by (simp add: all_close_def np_allclose_def spec_all_close_def broadcast_pairs_def
      broadcast_shapes_def item_def np_isclose_def spec_close_at_def feq_def fsub_def)
qed

text \<open>
  Claim C3: \<open>all_near_zero(a, rtol, atol, equal_nan)\<close> is
  \<open>all_close(a, z, rtol, atol, equal_nan)\<close> for \<open>z\<close> the array of the shape of \<open>a\<close> whose
  elements are all zero.
\<close>

theorem all_near_zero_is_all_close_zeros:
  "all_near_zero a rt ab en =
     all_close a \<lparr>shape = shape a, data = replicate (prod_list (shape a)) (Fin 0)\<rparr> rt ab en"
  by (simp add: all_near_zero_def np_zeros_def np_shape_def)

text \<open>
  Claim C8, as the code has it: with tolerances \<open>rtol, atol \<ge> 0\<close>, \<open>all_close(a, a, ...)\<close>
  is true for every array \<open>a\<close> with no NaN element, whatever \<open>equal_nan\<close>; and
  \<open>close(a, a, rtol, atol)\<close> is true for every finite scalar \<open>a\<close>.
\<close>

theorem all_close_and_close_reflexive:
  assumes "0 \<le> r" and "0 \<le> t"
  shows "(well_formed a \<and> NaN \<notin> set (data a) \<longrightarrow> all_close a a (Fin r) (Fin t) en = Inr True)
    \<and> close (Fin x) (Fin x) (Fin r) (Fin t)"
  using assms by (simp add: all_close_same close_refl)

theorem all_close_and_close_reflexive_witness:
  "(0::real) \<le> 1 / 10 ^ 5 \<and> (0::real) \<le> 0
   \<and> well_formed \<lparr>shape = [1, 2], data = [Fin 3, NInf]\<rparr>
   \<and> NaN \<notin> set (data \<lparr>shape = [1, 2], data = [Fin 3, NInf]\<rparr>)
   \<and> all_close \<lparr>shape = [1, 2], data = [Fin 3, NInf]\<rparr> \<lparr>shape = [1, 2], data = [Fin 3, NInf]\<rparr>
       (Fin (1 / 10 ^ 5)) (Fin 0) False = Inr True
   \<and> close (Fin 7) (Fin 7) (Fin (1 / 10 ^ 5)) (Fin 0)"
proof -
  have h1: "(0::real) \<le> 1 / 10 ^ 5" and h2: "(0::real) \<le> 0" by simp_all
  show ?thesis
    using h1 all_close_and_close_reflexive
        [OF h1 h2, of "\<lparr>shape = [1, 2], data = [Fin 3, NInf]\<rparr>" False 7]
    by (simp add: well_formed_def)
qed

text \<open>
  The scalar half of the claim fails on an infinity: \<open>inf == inf\<close> and \<open>inf\<close> is not NaN,
  but \<open>close(inf, inf)\<close> is false, since \<open>abs(inf - inf)\<close> is NaN.
\<close>

theorem close_infinity_counterexample:
  "feq PInf PInf \<and> \<not> isnan PInf \<and> \<not> close PInf PInf DEFAULT_RTOL DEFAULT_ATOL"
  by (simp add: feq_def close_def fsub_def)

section \<open>Properties of the class Tolerance\<close>

text \<open>
  Claim C1: \<open>Tolerance.all_close\<close> calls \<open>all_close\<close> with the stored \<open>rtol\<close> and
  \<open>atol\<close> but not with the stored \<open>equal_nan\<close>: the call is made with the function's
  default, false. For \<open>Tolerance(equal_nan=True)\<close>, the method is false on
  \<open>[NaN], [NaN]\<close>, where the function called with the three stored fields is true.
\<close>

theorem Tolerance_all_close_drops_equal_nan:
  "Tolerance_all_close self a b = all_close a b (rtol self) (atol self) False
   \<and> Tolerance_all_close (Tolerance_init (round64 (1 / 10 ^ 5)) (round64 (1 / 10 ^ 8)) True)
       \<lparr>shape = [1], data = [NaN]\<rparr> \<lparr>shape = [1], data = [NaN]\<rparr> = Inr False
   \<and> all_close \<lparr>shape = [1], data = [NaN]\<rparr> \<lparr>shape = [1], data = [NaN]\<rparr>
       (rtol (Tolerance_init (round64 (1 / 10 ^ 5)) (round64 (1 / 10 ^ 8)) True))
       (atol (Tolerance_init (round64 (1 / 10 ^ 5)) (round64 (1 / 10 ^ 8)) True))
       (equal_nan (Tolerance_init (round64 (1 / 10 ^ 5)) (round64 (1 / 10 ^ 8)) True)) = Inr True"
  by (simp add: Tolerance_all_close_def Tolerance_init_def DEFAULT_EQUAL_NAN_def all_close_def
      np_allclose_def broadcast_pairs_def broadcast_shapes_def item_def np_isclose_def feq_def)

text \<open>
  Claim C9: \<open>Tolerance.ZERO\<close> has \<open>rtol = 0\<close> and \<open>atol = 0\<close>; \<open>Tolerance.DEFAULT\<close> has
  \<open>rtol = 1e-5\<close>, \<open>atol = 1e-8\<close> and \<open>equal_nan = False\<close>;
  \<open>Tolerance.ZERO.close(1.0, 1.0 + 1e-10)\<close> is false and
  \<open>Tolerance.DEFAULT.close(1.0, 1.0 + 1e-10)\<close> is true. The literals are the doubles nearest
  to the decimals; the sum \<open>1.0 + 1e-10\<close> lies between \<open>1 + 2\<^sup>-\<^sup>3\<^sup>4\<close> and \<open>1 + 2\<^sup>-\<^sup>3\<^sup>3\<close>, and
  the default bound is at least \<open>2\<^sup>-\<^sup>1\<^sup>7\<close>.
\<close>

theorem Tolerance_ZERO_and_DEFAULT:
  "rtol Tolerance_ZERO = Fin 0 \<and> atol Tolerance_ZERO = Fin 0
   \<and> rtol Tolerance_DEFAULT = round64 (1 / 10 ^ 5) \<and> atol Tolerance_DEFAULT = round64 (1 / 10 ^ 8)
   \<and> equal_nan Tolerance_DEFAULT = False
   \<and> Tolerance_close Tolerance_ZERO (Fin 1) (fadd (Fin 1) (round64 (1 / 10 ^ 10))) = False
   \<and> Tolerance_close Tolerance_DEFAULT (Fin 1) (fadd (Fin 1) (round64 (1 / 10 ^ 10))) = True"
proof -
  obtain e where e: "round64 (1 / 10 ^ 10) = Fin e" "1 / 2 ^ 34 \<le> e" "e \<le> 1 / 2 ^ 33"
    using round64_literal [of "1 / 2 ^ 34" "1 / 10 ^ 10" "1 / 2 ^ 33"]
      is_double_frac [of 1 34] is_double_frac [of 1 33] by auto
  obtain sv where sv: "round64 (1 + e) = Fin sv" "1 + 1 / 2 ^ 34 \<le> sv" "sv \<le> 1 + 1 / 2 ^ 33"
    using round64_literal [of "1 + 1 / 2 ^ 34" "1 + e" "1 + 1 / 2 ^ 33"] e(2,3)
      is_double_frac [of "2 ^ 34 + 1" 34] is_double_frac [of "2 ^ 33 + 1" 33] by auto
  obtain d where d: "round64 (1 - sv) = Fin d" "- (1 / 2 ^ 33) \<le> d" "d \<le> - (1 / 2 ^ 34)"
    using round64_literal [of "- (1 / 2 ^ 33)" "1 - sv" "- (1 / 2 ^ 34)"] sv(2,3)
      is_double_frac [of 1 34] is_double_frac [of 1 33] by auto
  obtain y where y: "round64 (1 / 10 ^ 5) = Fin y" "1 / 2 ^ 17 \<le> y" "y \<le> 1 / 2 ^ 16"
    using DEFAULT_RTOL_value by (auto simp: DEFAULT_RTOL_def)
  obtain z where z: "round64 (1 / 10 ^ 8) = Fin z" "1 / 2 ^ 27 \<le> z" "z \<le> 1 / 2 ^ 26"
    using DEFAULT_ATOL_value by (auto simp: DEFAULT_ATOL_def)
  have sv1: "1 \<le> sv" "sv \<le> 2" using sv(2,3) by simp_all
  have "1 / 2 ^ 17 * 1 \<le> y * sv" using y(2) sv1 by (intro mult_mono) simp_all
  moreover have "y * sv \<le> 1 / 2 ^ 16 * 2" using y(2,3) sv1 by (intro mult_mono) simp_all
  ultimately obtain pr where pr: "round64 (y * \<bar>sv\<bar>) = Fin pr" "1 / 2 ^ 17 \<le> pr" "pr \<le> 1 / 2 ^ 15"
    using round64_literal [of "1 / 2 ^ 17" "y * sv" "1 / 2 ^ 15"] sv1
      is_double_frac [of 1 17] is_double_frac [of 1 15] by auto
  obtain q where q: "round64 (z + pr) = Fin q" "1 / 2 ^ 17 \<le> q"
    using round64_literal [of "1 / 2 ^ 17" "z + pr" 1] z(2,3) pr(2,3)
      is_double_frac [of 1 17] by auto
  have zero: "\<not> close (Fin 1) (Fin sv) (Fin 0) (Fin 0)"
    using d by (simp add: close_def fsub_def)
  have "\<bar>d\<bar> \<le> q" using d(2,3) q(2) by simp
  then have dflt: "close (Fin 1) (Fin sv) (Fin y) (Fin z)"
    using d(1) pr(1) q(1) by (simp add: close_def fsub_def)
  show ?thesis
    using zero dflt e(1) sv(1) y(1) z(1)
    by (simp add: Tolerance_ZERO_def Tolerance_DEFAULT_def Tolerance_init_def Tolerance_close_def)
qed

section \<open>The fold into a period\<close>

lemma fmod_bounds:
  assumes "0 < p"
  shows "\<bar>s - p * of_int (c_trunc (s / p))\<bar> < p"
    and "0 \<le> s \<Longrightarrow> 0 \<le> s - p * of_int (c_trunc (s / p))"
    and "s < 0 \<Longrightarrow> s - p * of_int (c_trunc (s / p)) \<le> 0"
proof -
  have fl: "p * of_int \<lfloor>s / p\<rfloor> \<le> s" "s < p * (of_int \<lfloor>s / p\<rfloor> + 1)"
  proof -
    have "of_int \<lfloor>s / p\<rfloor> \<le> s / p" by (rule of_int_floor_le)
    then show "p * of_int \<lfloor>s / p\<rfloor> \<le> s" by (metis assms pos_le_divide_eq mult.commute)
    have "s / p < of_int \<lfloor>s / p\<rfloor> + 1" by linarith
    then show "s < p * (of_int \<lfloor>s / p\<rfloor> + 1)" by (metis assms pos_divide_less_eq mult.commute)
  qed
  have ce: "p * (of_int \<lceil>s / p\<rceil> - 1) < s" "s \<le> p * of_int \<lceil>s / p\<rceil>"
  proof -
    have "s / p \<le> of_int \<lceil>s / p\<rceil>" by (rule le_of_int_ceiling)
    then show "s \<le> p * of_int \<lceil>s / p\<rceil>" by (metis assms pos_divide_le_eq mult.commute)
    have "of_int \<lceil>s / p\<rceil> - 1 < s / p" by linarith
    then show "p * (of_int \<lceil>s / p\<rceil> - 1) < s" by (metis assms pos_less_divide_eq mult.commute)
  qed
  show "\<bar>s - p * of_int (c_trunc (s / p))\<bar> < p"
    using fl ce assms unfolding c_trunc_def by (simp add: algebra_simps abs_less_iff)
  show "0 \<le> s \<Longrightarrow> 0 \<le> s - p * of_int (c_trunc (s / p))"
    using fl assms by (simp add: c_trunc_def)
  show "s - p * of_int (c_trunc (s / p)) \<le> 0" if "s < 0"
  proof -
    have "s / p < 0" using that assms by (rule divide_neg_pos)
    then show ?thesis using ce by (simp add: c_trunc_def)
  qed
qed

lemma float_rem_range:
  assumes "0 < p" and "is_double p"
  shows "\<exists>m. float_rem (Fin s) (Fin p) = Fin m \<and> 0 \<le> m \<and> m \<le> p"
proof -
  define m0 where "m0 = s - p * of_int (c_trunc (s / p))"
  have c: "c_fmod (Fin s) (Fin p) = Fin m0" using assms(1) by (simp add: m0_def)
  have b: "\<bar>m0\<bar> < p" unfolding m0_def by (rule fmod_bounds(1) [OF assms(1)])
  show ?thesis
  proof (cases "m0 < 0")
    case True
    then have "0 \<le> m0 + p" "m0 + p \<le> p" using b by simp_all
    from round64_between [OF this is_double_zero assms(2)]
    show ?thesis using True c by (simp add: float_rem_def Let_def)
  next
    case False
    then show ?thesis using b c by (simp add: float_rem_def Let_def)
  qed
qed

lemma fold_into_period_interval:
  assumes "0 < p" and "is_double p" and "is_double (p / 2)"
    and "isfinite (fadd (Fin v) (Fin (p / 2)))"
  shows "\<exists>w. fold_into_period (Fin p) (Fin v) = Fin w \<and> - (p / 2) \<le> w \<and> w \<le> p / 2"
proof -
  have h: "div2 (Fin p) = Fin (p / 2)" using assms(3) by (simp add: round64_double)
  obtain s where s: "fadd (Fin v) (Fin (p / 2)) = Fin s"
    using assms(4) by (cases "fadd (Fin v) (Fin (p / 2))") simp_all
  obtain m where m: "float_rem (Fin s) (Fin p) = Fin m" "0 \<le> m" "m \<le> p"
    using float_rem_range [OF assms(1,2)] by blast
  have "- (p / 2) \<le> m - p / 2" "m - p / 2 \<le> p / 2" using m by simp_all
  moreover have "is_double (- (p / 2))" using assms(3) by simp
  ultimately have "round64 (m - p / 2) = Fin (rnd (m - p / 2)) \<and> - (p / 2) \<le> rnd (m - p / 2)
      \<and> rnd (m - p / 2) \<le> p / 2"
    using assms(3) by (intro round64_between)
  then show ?thesis
    using h s m(1) by (simp add: fold_into_period_def fsub_def)
qed

lemma near_zero_mod_fold:
  assumes "0 < p"
  shows "near_zero_mod a (Fin p) ab = Inr (near_zero (fold_into_period (Fin p) a) ab)"
  using assms
  by (simp add: near_zero_mod_def py_mod_def fold_into_period_def Let_def)

lemma all_near_zero_mod_fold:
  assumes "0 < p"
  shows "all_near_zero_mod a (Fin p) rt ab en =
    all_near_zero (np_map (fold_into_period (Fin p)) a) rt ab en"
  using assms
  by (simp add: all_near_zero_mod_def all_near_zero_def np_map_def np_shape_def np_mod_def
      fold_into_period_def [abs_def] comp_def)

lemma fold_4_3: "fold_into_period (Fin 4) (Fin 3) = Fin (- 1)"
  by (simp add: fold_into_period_def fsub_def float_rem_def c_trunc_def round64_double
      is_double_numeral)

lemma fold_4_4: "fold_into_period (Fin 4) (Fin 4) = Fin 0"
  by (simp add: fold_into_period_def fsub_def float_rem_def c_trunc_def round64_double
      is_double_numeral)

lemma all_near_zero_one:
  "all_near_zero \<lparr>shape = [1], data = [Fin w]\<rparr> DEFAULT_RTOL DEFAULT_ATOL DEFAULT_EQUAL_NAN
    = Inr (fle (Fin \<bar>rnd w\<bar>) DEFAULT_ATOL)" if "\<bar>rnd w\<bar> < huge"
proof -
  obtain y where y: "DEFAULT_RTOL = Fin y" using DEFAULT_RTOL_value by blast
  obtain z where z: "DEFAULT_ATOL = Fin z" "is_double z" using DEFAULT_ATOL_value by blast
  show ?thesis
    unfolding y z(1) using z(2) that
    by (simp add: all_near_zero_def np_zeros_def np_shape_def all_close_def np_allclose_def
        broadcast_pairs_def broadcast_shapes_def item_def np_isclose_def within_tol_def fsub_def
        round64_double round64_Fin)
qed

lemma all_near_zero_mod_3_4:
  "all_near_zero_mod \<lparr>shape = [1], data = [Fin 3]\<rparr> (Fin 4)
     DEFAULT_RTOL DEFAULT_ATOL DEFAULT_EQUAL_NAN = Inr False"
proof -
  obtain z where z: "DEFAULT_ATOL = Fin z" "z \<le> 1 / 2 ^ 26" using DEFAULT_ATOL_value by blast
  have "\<bar>rnd (- 1)\<bar> < huge" "rnd (- 1) = - 1"
    using is_double_one by (simp_all add: is_double_def rnd_minus)
  moreover have "\<not> fle (Fin 1) DEFAULT_ATOL" unfolding z(1) using z(2) by simp
  ultimately show ?thesis
    using all_near_zero_one [of "- 1"]
    by (simp add: all_near_zero_mod_fold np_map_def fold_4_3)
qed

lemma all_near_zero_mod_4_4:
  "all_near_zero_mod \<lparr>shape = [1], data = [Fin 4]\<rparr> (Fin 4)
     DEFAULT_RTOL DEFAULT_ATOL DEFAULT_EQUAL_NAN = Inr True"
proof -
  obtain z where z: "DEFAULT_ATOL = Fin z" "1 / 2 ^ 27 \<le> z" using DEFAULT_ATOL_value by blast
  have "0 \<le> z" using z(2) by (rule order_trans [rotated]) simp
  then have "fle (Fin 0) DEFAULT_ATOL" unfolding z(1) by simp
  then show ?thesis
    using all_near_zero_one [of 0]
    by (simp add: all_near_zero_mod_fold np_map_def fold_4_4)
qed

text \<open>
  The fold of \<open>-1.5000000000000002\<close> into the period 3: the sum \<open>v + 1.5\<close> is
  \<open>-2\<^sup>-\<^sup>5\<^sup>2\<close>, its remainder \<open>3 - 2\<^sup>-\<^sup>5\<^sup>2\<close> is halfway between two doubles and rounds to
  3, and the fold is \<open>3 - 1.5\<close>, the upper end of the interval.
\<close>

lemma rnd_tie_below_3: "rnd (3 - 1 / 2 ^ 52) = 3"
proof -
  have "rnd (3 - 1 / 2 ^ 52) = of_int (round_half_even ((3 - 1 / 2 ^ 52) * 2 ^ 51)) / 2 ^ 51"
    by (rule rnd_small) simp_all
  also have "round_half_even ((3 - 1 / 2 ^ 52) * 2 ^ 51) = 3 * 2 ^ 51"
    by (simp add: round_half_even_def Let_def)
  finally show ?thesis by simp
qed

lemma fold_into_period_minus_three_halves: "fold_into_period (Fin 3) (Fin (- (3 / 2 + 1 / 2 ^ 52))) = Fin (3 / 2)"
proof -
  have d: "is_double (3 / 2)" "is_double (1 / 2 ^ 52)" "is_double 3"
    using is_double_frac [of 3 1] is_double_frac [of 1 52] is_double_int [of 3] by simp_all
  have r: "round64 (3 - 1 / 2 ^ 52) = Fin 3"
    using rnd_tie_below_3 d(3) by (simp add: round64_Fin is_double_def)
  have t: "c_trunc (- (1 / 2 ^ 52) / 3) = 0" by (simp add: c_trunc_def ceiling_eq_iff)
  have s: "fadd (Fin (- (3 / 2 + 1 / 2 ^ 52))) (Fin (3 / 2)) = Fin (- (1 / 2 ^ 52))"
    using d(2) by (simp add: round64_double)
  have "float_rem (Fin (- (1 / 2 ^ 52))) (Fin 3) = Fin 3"
    using r t by (simp add: float_rem_def Let_def)
  then show ?thesis
    using d s by (simp add: fold_into_period_def fsub_def round64_double)
qed

lemma ulp_le:
  assumes "\<bar>x\<bar> < 2 ^ k"
  shows "ulp x \<le> 2 ^ k / 2 ^ 53"
proof -
  have "ulp_shift x + 53 \<le> k + 1074"
  proof (cases "ulp_shift x = 0")
    case True
    then show ?thesis by simp
  next
    case False
    then have "2 ^ (ulp_shift x + 52) \<le> \<bar>x\<bar> * scale" by (intro ulp_shift_lower) simp
    also have "\<dots> < 2 ^ k * scale" using assms by (intro mult_strict_right_mono) simp_all
    also have "\<dots> = 2 ^ (k + 1074)" by (simp add: scale_def power_add)
    finally have "ulp_shift x + 52 < k + 1074" by (simp only: power_strict_increasing_iff)
    then show ?thesis by simp
  qed
  then have "(2::real) ^ (ulp_shift x + 53) \<le> 2 ^ (k + 1074)"
    by (intro power_increasing) simp_all
  then have "(2::real) ^ ulp_shift x * 2 ^ 53 \<le> 2 ^ k * scale"
    by (simp only: power_add scale_def)
  then show ?thesis by (simp add: ulp_def field_simps)
qed

lemma near_zero_mod_two_pi:
  "near_zero_mod (fmul (Fin 2) (round64 pi)) (fmul (Fin 2) (round64 pi)) (round64 (1 / 10 ^ 9))
    = Inr True"
proof -
  define P where "P = rnd pi"
  have d: "is_double 2" "is_double 4" using is_double_int [of 2] is_double_int [of 4] by simp_all
  have "round64 pi = Fin (rnd pi) \<and> 2 \<le> rnd pi \<and> rnd pi \<le> 4"
    using pi_ge_two pi_less_4 d by (intro round64_between) simp_all
  then have P: "round64 pi = Fin P" "2 \<le> P" "P \<le> 4" by (simp_all add: P_def)
  have dP: "is_double P" using P(2,3) d unfolding P_def is_double_def by simp
  have "rnd (2 * P) = 2 * P" unfolding P_def by (rule rnd_double_exact)
  moreover have "\<bar>2 * P\<bar> < huge"
  proof -
    have "\<bar>2 * P\<bar> < 2 ^ 4" using P(2,3) by simp
    also have "\<dots> < huge" by (rule power_less_huge) simp
    finally show ?thesis .
  qed
  ultimately have d2P: "is_double (2 * P)" by (simp add: is_double_def)
  have a: "fmul (Fin 2) (round64 pi) = Fin (2 * P)" using d2P by (simp add: P(1) round64_double)
  have h: "div2 (Fin (2 * P)) = Fin P" using dP by (simp add: round64_double)
  define s where "s = rnd (3 * P)"
  have "\<bar>3 * P\<bar> < 2 ^ 4" using P(2,3) by simp
  from ulp_le [OF this] have "ulp (3 * P) \<le> 1 / 2 ^ 49" by simp
  with rnd_error [of "3 * P"] have err: "\<bar>s - 3 * P\<bar> \<le> 1 / 2 ^ 50" unfolding s_def by simp
  have lo: "3 * P - 1 / 2 ^ 50 \<le> s" and hi: "s \<le> 3 * P + 1 / 2 ^ 50"
    using err by linarith+
  have small: "(1::real) / 2 ^ 50 \<le> 1" by simp
  have "\<bar>s\<bar> < 16" using lo hi small P(2,3) by linarith
  then have "\<bar>s\<bar> < 2 ^ 4" by simp
  also have "\<dots> < huge" by (rule power_less_huge) simp
  finally have s: "fadd (Fin (2 * P)) (Fin P) = Fin s" by (simp add: s_def round64_Fin)
  have q: "1 \<le> s / (2 * P)" "s / (2 * P) < 2"
  proof -
    have "1 * (2 * P) \<le> s" using lo small P(2) by linarith
    then show "1 \<le> s / (2 * P)" using P(2) by (simp only: pos_le_divide_eq)
    have "s < 2 * (2 * P)" using hi small P(2) by linarith
    then show "s / (2 * P) < 2" using P(2) by (simp only: pos_divide_less_eq)
  qed
  then have "\<lfloor>s / (2 * P)\<rfloor> = 1" by (intro floor_unique) simp_all
  then have t: "c_trunc (s / (2 * P)) = 1" using q by (simp add: c_trunc_def)
  have pos: "0 < s - 2 * P" using lo small P(2) by linarith
  have fr: "float_rem (Fin s) (Fin (2 * P)) = Fin (s - 2 * P)"
    using pos P(2) t by (simp add: float_rem_def Let_def)
  have dd: "is_double (1 / 2 ^ 50)" using is_double_frac [of 1 50] by simp
  define w where "w = rnd (s - 2 * P - P)"
  have "round64 (s - 2 * P - P) = Fin (rnd (s - 2 * P - P)) \<and> - (1 / 2 ^ 50) \<le> rnd (s - 2 * P - P)
      \<and> rnd (s - 2 * P - P) \<le> 1 / 2 ^ 50"
    using lo hi dd by (intro round64_between) simp_all
  then have rw: "round64 (s - 2 * P - P) = Fin w" and b: "- (1 / 2 ^ 50) \<le> w" "w \<le> 1 / 2 ^ 50"
    unfolding w_def by blast+
  have w: "fsub (Fin (s - 2 * P)) (Fin P) = Fin w" "\<bar>w\<bar> \<le> 1 / 2 ^ 50"
    using rw b by (simp_all add: fsub_def abs_le_iff)
  obtain z where z: "round64 (1 / 10 ^ 9) = Fin z" "1 / 2 ^ 30 \<le> z"
    using round64_literal [of "1 / 2 ^ 30" "1 / 10 ^ 9" "1 / 2 ^ 29"]
      is_double_frac [of 1 30] is_double_frac [of 1 29] by auto
  have "\<bar>w\<bar> \<le> z" using w(2) z(2) by simp
  then have "near_zero (Fin w) (Fin z)" by (simp add: near_zero_def)
  then show ?thesis
    unfolding a z(1) using P(2) h s fr w(1)
    by (simp add: near_zero_mod_def py_mod_def Let_def)
qed

text \<open>
  Claim C5, as the code has it: for a finite period \<open>p > 0\<close>,
  \<open>all_near_zero_mod(a, p, rtol, atol, equal_nan)\<close> is \<open>all_near_zero\<close> of the array of the
  folds of the elements of \<open>a\<close>, each computed in double arithmetic. When \<open>p\<close> and \<open>p/2\<close>
  are doubles and \<open>v + p/2\<close> does not overflow, the fold of a finite \<open>v\<close> lies in the closed
  interval \<open>[-p/2, p/2]\<close>. With the default tolerances \<open>all_near_zero_mod([3.0], period=4.0)\<close>
  is false (3 folds to -1) and \<open>all_near_zero_mod([4.0], period=4.0)\<close> is true (4 folds
  to 0).
\<close>

theorem all_near_zero_mod_is_all_near_zero_of_fold:
  assumes "0 < p"
  shows "all_near_zero_mod a (Fin p) rt ab en =
      all_near_zero (np_map (fold_into_period (Fin p)) a) rt ab en
    \<and> (is_double p \<and> is_double (p / 2) \<and> isfinite (fadd (Fin v) (Fin (p / 2))) \<longrightarrow>
         (\<exists>w. fold_into_period (Fin p) (Fin v) = Fin w \<and> - (p / 2) \<le> w \<and> w \<le> p / 2))
    \<and> fold_into_period (Fin 4) (Fin 3) = Fin (- 1)
    \<and> all_near_zero_mod \<lparr>shape = [1], data = [Fin 3]\<rparr> (Fin 4)
        DEFAULT_RTOL DEFAULT_ATOL DEFAULT_EQUAL_NAN = Inr False
    \<and> fold_into_period (Fin 4) (Fin 4) = Fin 0
    \<and> all_near_zero_mod \<lparr>shape = [1], data = [Fin 4]\<rparr> (Fin 4)
        DEFAULT_RTOL DEFAULT_ATOL DEFAULT_EQUAL_NAN = Inr True"
  using all_near_zero_mod_fold [OF assms] fold_into_period_interval [OF assms]
    fold_4_3 fold_4_4 all_near_zero_mod_3_4 all_near_zero_mod_4_4
  by blast

theorem all_near_zero_mod_is_all_near_zero_of_fold_witness:
  "(0::real) < 2 \<and> is_double 2 \<and> is_double (2 / 2) \<and> isfinite (fadd (Fin 5) (Fin (2 / 2)))
   \<and> all_near_zero_mod \<lparr>shape = [2], data = [Fin 5, NaN]\<rparr> (Fin 2) (Fin 0) (Fin 0) True =
       all_near_zero \<lparr>shape = [2], data = [Fin (- 1), NaN]\<rparr> (Fin 0) (Fin 0) True
   \<and> fold_into_period (Fin 2) (Fin 5) = Fin (- 1)"
proof -
  have h: "(0::real) < 2" by simp
  have d: "is_double 2" "is_double 6" using is_double_int [of 2] is_double_int [of 6] by simp_all
  have f5: "fold_into_period (Fin 2) (Fin 5) = Fin (- 1)"
    using d by (simp add: fold_into_period_def fsub_def float_rem_def c_trunc_def round64_double)
  have fn: "fold_into_period (Fin 2) NaN = NaN"
    by (simp add: fold_into_period_def fsub_def float_rem_def round64_double)
  show ?thesis
    using h d f5
      all_near_zero_mod_is_all_near_zero_of_fold
        [OF h, of "\<lparr>shape = [2], data = [Fin 5, NaN]\<rparr>" "Fin 0" "Fin 0" True 5]
    by (simp add: np_map_def fn round64_double)
qed

text \<open>
  The claim as the specification words it, with the half-open interval \<open>[-p/2, p/2)\<close>, fails
  where the remainder rounds up to the period: for \<open>p = 3.0\<close> the element
  \<open>-1.5000000000000002\<close> folds to \<open>1.5\<close>, so that
  \<open>all_near_zero_mod([-1.5000000000000002], 3.0, rtol=0, atol=1.4999999999999998)\<close> is false.
\<close>

theorem all_near_zero_mod_fold_counterexample:
  "is_double (- (3 / 2 + 1 / 2 ^ 52)) \<and> is_double 3
   \<and> np_map (fold_into_period (Fin 3)) \<lparr>shape = [1], data = [Fin (- (3 / 2 + 1 / 2 ^ 52))]\<rparr>
       = \<lparr>shape = [1], data = [Fin (3 / 2)]\<rparr>
   \<and> \<not> in_half_open_interval 3 (3 / 2)
   \<and> all_near_zero_mod \<lparr>shape = [1], data = [Fin (- (3 / 2 + 1 / 2 ^ 52))]\<rparr> (Fin 3)
       (Fin 0) (Fin (3 / 2 - 1 / 2 ^ 52)) False = Inr False"
proof -
  have d: "is_double (- (3 / 2 + 1 / 2 ^ 52))" "is_double 3" "is_double (3 / 2)"
      "is_double (3 / 2 - 1 / 2 ^ 52)"
    using is_double_frac [of "- (3 * 2 ^ 51 + 1)" 52] is_double_int [of 3] is_double_frac [of 3 1]
      is_double_frac [of "3 * 2 ^ 51 - 1" 52]
    by simp_all
  have m: "np_map (fold_into_period (Fin 3)) \<lparr>shape = [1], data = [Fin (- (3 / 2 + 1 / 2 ^ 52))]\<rparr>
       = \<lparr>shape = [1], data = [Fin (3 / 2)]\<rparr>"
    using fold_into_period_minus_three_halves by (simp add: np_map_def)
  have "all_near_zero \<lparr>shape = [1], data = [Fin (3 / 2)]\<rparr> (Fin 0) (Fin (3 / 2 - 1 / 2 ^ 52)) False
      = Inr False"
    using d(3,4)
    by (simp add: all_near_zero_def np_zeros_def np_shape_def all_close_def np_allclose_def
        broadcast_pairs_def broadcast_shapes_def item_def np_isclose_def within_tol_def fsub_def
        round64_double)
  then have "all_near_zero_mod \<lparr>shape = [1], data = [Fin (- (3 / 2 + 1 / 2 ^ 52))]\<rparr> (Fin 3)
       (Fin 0) (Fin (3 / 2 - 1 / 2 ^ 52)) False = Inr False"
    by (simp only: all_near_zero_mod_fold [of 3, simplified] m)
  then show ?thesis using d(1,2) m by (simp add: in_half_open_interval_def)
qed

text \<open>
  Claim C6, as the code has it: for a finite period \<open>p > 0\<close>, \<open>near_zero_mod(a, p, atol)\<close>
  returns (it does not raise) \<open>near_zero\<close> of the fold of \<open>a\<close>, computed in double
  arithmetic. When \<open>p\<close> and \<open>p/2\<close> are doubles and \<open>a + p/2\<close> does not overflow, the fold of a
  finite \<open>a\<close> lies in the closed interval \<open>[-p/2, p/2]\<close>. And
  \<open>near_zero_mod(2*pi, period=2*pi, atol=1e-9)\<close> is true, for \<open>pi\<close> the double nearest to
  \<open>\<pi>\<close>.
\<close>

theorem near_zero_mod_is_near_zero_of_fold:
  assumes "0 < p"
  shows "near_zero_mod a (Fin p) ab = Inr (near_zero (fold_into_period (Fin p) a) ab)
    \<and> (is_double p \<and> is_double (p / 2) \<and> isfinite (fadd (Fin v) (Fin (p / 2))) \<longrightarrow>
         (\<exists>w. fold_into_period (Fin p) (Fin v) = Fin w \<and> - (p / 2) \<le> w \<and> w \<le> p / 2))
    \<and> near_zero_mod (fmul (Fin 2) (round64 pi)) (fmul (Fin 2) (round64 pi))
         (round64 (1 / 10 ^ 9)) = Inr True"
  using near_zero_mod_fold [OF assms] fold_into_period_interval [OF assms] near_zero_mod_two_pi
  by blast

theorem near_zero_mod_is_near_zero_of_fold_witness:
  "(0::real) < 4 \<and> is_double 4 \<and> is_double (4 / 2) \<and> isfinite (fadd (Fin 3) (Fin (4 / 2)))
   \<and> near_zero_mod (Fin 3) (Fin 4) (Fin (1 / 2)) = Inr False
   \<and> fold_into_period (Fin 4) (Fin 3) = Fin (- 1)
   \<and> near_zero_mod (Fin 8) (Fin 4) (Fin (1 / 2)) = Inr True"
proof -
  have h: "(0::real) < 4" by simp
  have d: "is_double 4" "is_double 2" "is_double 5"
    using is_double_int [of 4] is_double_int [of 2] is_double_int [of 5] by simp_all
  have f8: "fold_into_period (Fin 4) (Fin 8) = Fin 0"
    by (simp add: fold_into_period_def fsub_def float_rem_def c_trunc_def round64_double
        is_double_numeral)
  show ?thesis
    using h d fold_4_3
      near_zero_mod_is_near_zero_of_fold [OF h, of "Fin 3" "Fin (1 / 2)" 3]
      near_zero_mod_is_near_zero_of_fold [OF h, of "Fin 8" "Fin (1 / 2)" 3]
    by (simp add: f8 near_zero_def round64_double)
qed

text \<open>
  The claim as the specification words it, with the half-open interval \<open>[-p/2, p/2)\<close>, fails
  on the same input: \<open>near_zero_mod(-1.5000000000000002, 3.0, 1.4999999999999998)\<close> tests
  the fold \<open>1.5\<close> and is false.
\<close>

theorem near_zero_mod_fold_counterexample:
  "is_double (- (3 / 2 + 1 / 2 ^ 52)) \<and> is_double 3
   \<and> fold_into_period (Fin 3) (Fin (- (3 / 2 + 1 / 2 ^ 52))) = Fin (3 / 2)
   \<and> \<not> in_half_open_interval 3 (3 / 2)
   \<and> near_zero_mod (Fin (- (3 / 2 + 1 / 2 ^ 52))) (Fin 3) (Fin (3 / 2 - 1 / 2 ^ 52)) = Inr False"
proof -
  have d: "is_double (- (3 / 2 + 1 / 2 ^ 52))" "is_double 3"
    using is_double_frac [of "- (3 * 2 ^ 51 + 1)" 52] is_double_int [of 3] by simp_all
  have "near_zero_mod (Fin (- (3 / 2 + 1 / 2 ^ 52))) (Fin 3) (Fin (3 / 2 - 1 / 2 ^ 52))
      = Inr (near_zero (Fin (3 / 2)) (Fin (3 / 2 - 1 / 2 ^ 52)))"
    by (simp only: near_zero_mod_fold [of 3, simplified] fold_into_period_minus_three_halves)
  then show ?thesis
    using d fold_into_period_minus_three_halves
    by (simp add: in_half_open_interval_def near_zero_def)
qed

end
